theory Spec2Isabelle
  imports Complex_Main "HOL-Library.Sublist" "HOL-Library.Multiset"
begin

section \<open>Floating-point values\<close>

text \<open>
  The program computes with IEEE doubles through numpy and pandas, which do not raise on
  a division by zero, a square root or a logarithm outside its domain: they return
  \<open>inf\<close>, \<open>-inf\<close> or \<open>nan\<close>, and every comparison with \<open>nan\<close> is false. The control
  flow of the program depends on these special values, so they are part of the model.
  Finite values are real numbers and arithmetic on them is exact: rounding is not
  modelled. Zero is unsigned; every divisor of the program that can be zero is the
  positive zero (a square root, an integer, or a sum or difference with \<open>1.0\<close>).
\<close>

datatype fl = Fin real | PInf | NInf | NaN

fun fneg :: "fl \<Rightarrow> fl" where
  "fneg (Fin x) = Fin (- x)"
| "fneg PInf = NInf"
| "fneg NInf = PInf"
| "fneg NaN = NaN"

fun fadd :: "fl \<Rightarrow> fl \<Rightarrow> fl" where
  "fadd (Fin x) (Fin y) = Fin (x + y)"
| "fadd NaN b = NaN"
| "fadd a NaN = NaN"
| "fadd PInf NInf = NaN"
| "fadd NInf PInf = NaN"
| "fadd PInf b = PInf"
| "fadd a PInf = PInf"
| "fadd NInf b = NInf"
| "fadd a NInf = NInf"

definition fsub :: "fl \<Rightarrow> fl \<Rightarrow> fl" where
  "fsub a b = fadd a (fneg b)"

fun fmul :: "fl \<Rightarrow> fl \<Rightarrow> fl" where
  "fmul (Fin x) (Fin y) = Fin (x * y)"
| "fmul NaN b = NaN"
| "fmul a NaN = NaN"
| "fmul PInf (Fin y) = (if 0 < y then PInf else if y < 0 then NInf else NaN)"
| "fmul NInf (Fin y) = (if 0 < y then NInf else if y < 0 then PInf else NaN)"
| "fmul (Fin x) PInf = (if 0 < x then PInf else if x < 0 then NInf else NaN)"
| "fmul (Fin x) NInf = (if 0 < x then NInf else if x < 0 then PInf else NaN)"
| "fmul PInf PInf = PInf"
| "fmul PInf NInf = NInf"
| "fmul NInf PInf = NInf"
| "fmul NInf NInf = PInf"

fun fdiv :: "fl \<Rightarrow> fl \<Rightarrow> fl" where
  "fdiv (Fin x) (Fin y) =
     (if y \<noteq> 0 then Fin (x / y)
      else if 0 < x then PInf else if x < 0 then NInf else NaN)"
| "fdiv NaN b = NaN"
| "fdiv a NaN = NaN"
| "fdiv (Fin x) PInf = Fin 0"
| "fdiv (Fin x) NInf = Fin 0"
| "fdiv PInf (Fin y) = (if 0 \<le> y then PInf else NInf)"
| "fdiv NInf (Fin y) = (if 0 \<le> y then NInf else PInf)"
| "fdiv PInf b = NaN"
| "fdiv NInf b = NaN"

text \<open>\<open>np.sqrt\<close> and \<open>np.log\<close>: \<open>nan\<close> below zero, \<open>log 0 = -inf\<close>.\<close>

fun fsqrt :: "fl \<Rightarrow> fl" where
  "fsqrt (Fin x) = (if x < 0 then NaN else Fin (sqrt x))"
| "fsqrt PInf = PInf"
| "fsqrt NInf = NaN"
| "fsqrt NaN = NaN"

fun flog :: "fl \<Rightarrow> fl" where
  "flog (Fin x) = (if x < 0 then NaN else if x = 0 then NInf else Fin (ln x))"
| "flog PInf = PInf"
| "flog NInf = NaN"
| "flog NaN = NaN"

text \<open>The comparisons \<open>x > y\<close> and \<open>x >= y\<close>: false as soon as one side is \<open>nan\<close>.\<close>

fun fgt :: "fl \<Rightarrow> fl \<Rightarrow> bool" where
  "fgt (Fin x) (Fin y) = (y < x)"
| "fgt NaN b = False"
| "fgt a NaN = False"
| "fgt a PInf = False"
| "fgt NInf b = False"
| "fgt PInf b = True"
| "fgt a NInf = True"

fun fge :: "fl \<Rightarrow> fl \<Rightarrow> bool" where
  "fge (Fin x) (Fin y) = (y \<le> x)"
| "fge NaN b = False"
| "fge a NaN = False"
| "fge PInf b = True"
| "fge a NInf = True"
| "fge a PInf = False"
| "fge NInf b = False"

text \<open>\<open>np.clip(x, -1, 1)\<close>, which keeps \<open>nan\<close>.\<close>

fun fclip :: "fl \<Rightarrow> fl" where
  "fclip (Fin x) = Fin (min (max x (- 1)) 1)"
| "fclip PInf = Fin 1"
| "fclip NInf = Fin (- 1)"
| "fclip NaN = NaN"

primrec fsum :: "fl list \<Rightarrow> fl" where
  "fsum [] = Fin 0"
| "fsum (x # xs) = fadd x (fsum xs)"

definition of_count :: "nat \<Rightarrow> fl" where
  "of_count k = Fin (real k)"

section \<open>The pandas and numpy operations the program calls\<close>

text \<open>
  A \<open>Series\<close> is a list of labelled values, a \<open>DataFrame\<close> a list of labelled columns
  with the length of its index. Labels may repeat, as pandas allows.
\<close>

type_synonym series = "(string \<times> fl) list"

record dataframe =
  index_len :: nat
  columns :: "(string \<times> fl list) list"

definition shape :: "dataframe \<Rightarrow> nat \<times> nat" where
  "shape df = (index_len df, length (columns df))"

text \<open>\<open>df - scalar\<close>, cell by cell.\<close>

definition df_sub :: "dataframe \<Rightarrow> fl \<Rightarrow> dataframe" where
  "df_sub df r = df\<lparr>columns := map (\<lambda>(name, col). (name, map (\<lambda>x. fsub x r) col)) (columns df)\<rparr>"

text \<open>
  \<open>Series.mean()\<close> and \<open>Series.std()\<close> skip missing values (\<open>skipna=True\<close>); the
  standard deviation uses \<open>ddof=1\<close> and is \<open>nan\<close> with fewer than two values.
  \<open>np.mean\<close> of a Series dispatches to \<open>Series.mean\<close>; on an array it keeps \<open>nan\<close>.
\<close>

definition notna :: "fl list \<Rightarrow> fl list" where
  "notna xs = filter (\<lambda>x. x \<noteq> NaN) xs"

definition pd_mean :: "fl list \<Rightarrow> fl" where
  "pd_mean xs = fdiv (fsum (notna xs)) (of_count (length (notna xs)))"

definition pd_std :: "fl list \<Rightarrow> fl" where
  "pd_std xs =
     (let ys = notna xs;
          avg = fdiv (fsum ys) (of_count (length ys));
          sqr = map (\<lambda>y. fmul (fsub avg y) (fsub avg y)) ys
      in if length ys \<le> 1 then NaN
         else fsqrt (fdiv (fsum sqr) (of_count (length ys - 1))))"

definition np_mean :: "fl list \<Rightarrow> fl" where
  "np_mean xs = fdiv (fsum xs) (of_count (length xs))"

definition df_mean :: "dataframe \<Rightarrow> series" where
  "df_mean df = map (\<lambda>(name, col). (name, pd_mean col)) (columns df)"

definition df_std :: "dataframe \<Rightarrow> series" where
  "df_std df = map (\<lambda>(name, col). (name, pd_std col)) (columns df)"

text \<open>
  Arithmetic of two Series whose indexes are equal goes position by position and keeps
  the index; so does a scalar times a Series. Every Series pair the program combines
  has equal indexes: both come from the same columns or the same label list.
\<close>

definition series_map2 :: "(fl \<Rightarrow> fl \<Rightarrow> fl) \<Rightarrow> series \<Rightarrow> series \<Rightarrow> series" where
  "series_map2 f s t = map (\<lambda>((l, x), (_, y)). (l, f x y)) (zip s t)"

definition series_scale :: "fl \<Rightarrow> series \<Rightarrow> series" where
  "series_scale a s = map (\<lambda>(l, x). (l, fmul a x)) s"

text \<open>
  Selection by a list of labels, \<open>s[labels]\<close> and \<open>df[labels]\<close>: for each label in
  turn, every entry that carries it.
\<close>

definition loc :: "(string \<times> 'a) list \<Rightarrow> string list \<Rightarrow> (string \<times> 'a) list" where
  "loc s labels = concat (map (\<lambda>l. filter (\<lambda>kv. fst kv = l) s) labels)"

text \<open>
  \<open>sort_values(ascending=False)\<close>: descending, missing values last. Ties keep their
  column order here; pandas' default sort leaves the order of exact ties to the
  implementation, and nothing below depends on it.
\<close>

fun insert_desc :: "string \<times> fl \<Rightarrow> series \<Rightarrow> series" where
  "insert_desc x [] = [x]"
| "insert_desc x (y # ys) =
     (if fgt (snd y) (snd x) then y # insert_desc x ys else x # y # ys)"

definition sort_values_desc :: "series \<Rightarrow> series" where
  "sort_values_desc s =
     foldr insert_desc (filter (\<lambda>kv. snd kv \<noteq> NaN) s) [] @ filter (\<lambda>kv. snd kv = NaN) s"

text \<open>
  \<open>np.corrcoef(X, rowvar=False)\<close> on the columns \<open>X\<close>, each with \<open>t\<close> observations:
  the covariance matrix with \<open>ddof=1\<close> (the divisor is set to zero when it is not
  positive), divided by the standard deviations of the row and of the column, and
  clipped to \<open>[-1, 1]\<close>. For a single column numpy returns a scalar instead of a
  matrix; the program does not index it then, the range of the loop being empty.
\<close>

definition dot :: "fl list \<Rightarrow> fl list \<Rightarrow> fl" where
  "dot a b = fsum (map (\<lambda>(x, y). fmul x y) (zip a b))"

definition np_cov :: "fl list list \<Rightarrow> nat \<Rightarrow> fl list list" where
  "np_cov X t =
     (let centred = map (\<lambda>col. map (\<lambda>x. fsub x (np_mean col)) col) X;
          fact = (if t \<le> 1 then Fin 0 else of_count (t - 1))
      in map (\<lambda>a. map (\<lambda>b. fmul (dot a b) (fdiv (Fin 1) fact)) centred) centred)"

definition np_corrcoef :: "fl list list \<Rightarrow> nat \<Rightarrow> fl list list" where
  "np_corrcoef X t =
     (let c = np_cov X t;
          stddev = map (\<lambda>i. fsqrt (c ! i ! i)) [0..<length c]
      in map (\<lambda>i. map (\<lambda>j. fclip (fdiv (fdiv (c ! i ! j) (stddev ! i)) (stddev ! j)))
                    [0..<length c]) [0..<length c])"

text \<open>
  Python's \<open>max\<close> over the values of a Series: it keeps the current maximum unless the
  next value compares greater, and raises \<open>ValueError\<close> on an empty sequence.
\<close>

definition py_max :: "fl list \<Rightarrow> fl option" where
  "py_max xs = (case xs of [] \<Rightarrow> None
                | x # rest \<Rightarrow> Some (foldl (\<lambda>m y. if fgt y m then y else m) x rest))"

section \<open>The program\<close>

text \<open>
  \<open>superior_predictive_ability(log_returns_df, risk_free_rate, null_sharpe, alpha)\<close>.
  The inverse normal distribution function \<open>scipy.stats.norm.ppf\<close> is not part of the
  repository; the model takes it as the parameter \<open>ppf\<close>. The \<open>print\<close> calls are
  diagnostics and are left out.
\<close>

datatype error = ValueError | IndexError

text \<open>The value of a call: a list of names, or \<open>None\<close> when the body ends without \<open>return\<close>.\<close>

datatype pyval = PyList "string list" | PyNone

subsection \<open>Lines 43 to 51: shape, Sharpe ratios, ranking, correlation matrix\<close>

definition n_periods :: "dataframe \<Rightarrow> nat" where
  "n_periods df = fst (shape df)"

definition n_strategies :: "dataframe \<Rightarrow> nat" where
  "n_strategies df = snd (shape df)"

definition excess_returns :: "dataframe \<Rightarrow> fl \<Rightarrow> dataframe" where
  "excess_returns df risk_free_rate = df_sub df risk_free_rate"

definition mean_returns :: "dataframe \<Rightarrow> fl \<Rightarrow> series" where
  "mean_returns df risk_free_rate = df_mean (excess_returns df risk_free_rate)"

definition std_devs :: "dataframe \<Rightarrow> fl \<Rightarrow> series" where
  "std_devs df risk_free_rate = df_std (excess_returns df risk_free_rate)"

definition sharpe_ratios :: "dataframe \<Rightarrow> fl \<Rightarrow> series" where
  "sharpe_ratios df risk_free_rate =
     series_map2 fdiv (mean_returns df risk_free_rate) (std_devs df risk_free_rate)"

definition strategies_list :: "dataframe \<Rightarrow> fl \<Rightarrow> string list" where
  "strategies_list df risk_free_rate =
     map fst (sort_values_desc (sharpe_ratios df risk_free_rate))"

definition correlation_matrix :: "dataframe \<Rightarrow> fl \<Rightarrow> fl list list" where
  "correlation_matrix df risk_free_rate =
     np_corrcoef (map snd (loc (columns df) (strategies_list df risk_free_rate))) (index_len df)"

subsection \<open>Lines 56 to 74: one iteration, up to the count of strategies that pass\<close>

definition subset_strategies_list :: "dataframe \<Rightarrow> fl \<Rightarrow> nat \<Rightarrow> string list" where
  "subset_strategies_list df risk_free_rate i = drop i (strategies_list df risk_free_rate)"

definition subset_n_strategies :: "dataframe \<Rightarrow> fl \<Rightarrow> nat \<Rightarrow> nat" where
  "subset_n_strategies df risk_free_rate i = length (subset_strategies_list df risk_free_rate i)"

definition subset_sharpe_ratios :: "dataframe \<Rightarrow> fl \<Rightarrow> nat \<Rightarrow> series" where
  "subset_sharpe_ratios df risk_free_rate i =
     loc (sharpe_ratios df risk_free_rate) (subset_strategies_list df risk_free_rate i)"

definition zeta_bar :: "dataframe \<Rightarrow> fl \<Rightarrow> nat \<Rightarrow> fl" where
  "zeta_bar df risk_free_rate i = pd_mean (map snd (subset_sharpe_ratios df risk_free_rate i))"

text \<open>
  \<open>pd.Series(zeta_bar * np.ones_like(subset_sharpe_ratios), index=subset_strategies_list)\<close>
  raises \<open>ValueError\<close> unless there are as many values as labels; \<open>loop_body\<close> below
  makes that check before it uses this Series.
\<close>

definition zeta_ones_like :: "dataframe \<Rightarrow> fl \<Rightarrow> nat \<Rightarrow> series" where
  "zeta_ones_like df risk_free_rate i =
     map (\<lambda>l. (l, fmul (zeta_bar df risk_free_rate i) (Fin 1)))
       (subset_strategies_list df risk_free_rate i)"

definition rho :: "dataframe \<Rightarrow> fl \<Rightarrow> nat \<Rightarrow> fl" where
  "rho df risk_free_rate i = np_mean (drop (i + 1) (correlation_matrix df risk_free_rate ! i))"

definition c :: "dataframe \<Rightarrow> fl \<Rightarrow> nat \<Rightarrow> fl" where
  "c df risk_free_rate i =
     fdiv (Fin 1)
       (fsqrt (fadd (Fin 1)
          (fmul (fsub (of_count (subset_n_strategies df risk_free_rate i)) (Fin 1))
                (rho df risk_free_rate i))))"

definition term1 :: "dataframe \<Rightarrow> fl \<Rightarrow> nat \<Rightarrow> series" where
  "term1 df risk_free_rate i =
     series_scale (c df risk_free_rate i) (zeta_ones_like df risk_free_rate i)"

definition term2 :: "dataframe \<Rightarrow> fl \<Rightarrow> nat \<Rightarrow> series" where
  "term2 df risk_free_rate i =
     series_scale (fdiv (Fin 1) (fsqrt (fsub (Fin 1) (rho df risk_free_rate i))))
       (series_map2 fsub (subset_sharpe_ratios df risk_free_rate i)
                         (zeta_ones_like df risk_free_rate i))"

definition xi :: "dataframe \<Rightarrow> fl \<Rightarrow> nat \<Rightarrow> series" where
  "xi df risk_free_rate i =
     series_map2 fadd (term1 df risk_free_rate i) (term2 df risk_free_rate i)"

definition initial_threshold :: "dataframe \<Rightarrow> fl \<Rightarrow> fl \<Rightarrow> nat \<Rightarrow> fl" where
  "initial_threshold df risk_free_rate null_sharpe i =
     fsub (fmul (c df risk_free_rate i) null_sharpe)
          (fsqrt (fdiv (fmul (Fin 2) (flog (flog (of_count (n_periods df)))))
                       (of_count (n_periods df))))"

definition strategies_passed_list :: "dataframe \<Rightarrow> fl \<Rightarrow> fl \<Rightarrow> nat \<Rightarrow> string list" where
  "strategies_passed_list df risk_free_rate null_sharpe i =
     map fst (filter (\<lambda>kv. fgt (snd kv) (initial_threshold df risk_free_rate null_sharpe i))
                     (xi df risk_free_rate i))"

definition k_tilde :: "dataframe \<Rightarrow> fl \<Rightarrow> fl \<Rightarrow> nat \<Rightarrow> nat" where
  "k_tilde df risk_free_rate null_sharpe i =
     length (strategies_passed_list df risk_free_rate null_sharpe i)"

subsection \<open>Lines 55 to 85: the loop\<close>

text \<open>
  The body of the loop either goes on to the next \<open>i\<close> with the list it has extended,
  or returns, or raises. The places that can raise are the Series constructor of line 63,
  the row \<open>correlation_matrix[i]\<close>, \<open>max\<close> of an empty sequence and
  \<open>subset_strategies_list[0]\<close>.
\<close>

datatype step = Continue "string list" | Return "string list" | Raise error

definition bonferroni_passes ::
  "(fl \<Rightarrow> fl) \<Rightarrow> dataframe \<Rightarrow> fl \<Rightarrow> fl \<Rightarrow> fl \<Rightarrow> nat \<Rightarrow> fl \<Rightarrow> bool" where
  "bonferroni_passes ppf df risk_free_rate null_sharpe alpha i max_xi =
     fge (fsub max_xi (fmul (c df risk_free_rate i) null_sharpe))
         (ppf (fsub (Fin 1)
                 (fdiv alpha (of_count (k_tilde df risk_free_rate null_sharpe i)))))"

definition loop_body ::
  "(fl \<Rightarrow> fl) \<Rightarrow> dataframe \<Rightarrow> fl \<Rightarrow> fl \<Rightarrow> fl \<Rightarrow> nat \<Rightarrow> string list \<Rightarrow> step" where
  "loop_body ppf df risk_free_rate null_sharpe alpha i statistically_significant =
     (if length (subset_sharpe_ratios df risk_free_rate i)
           \<noteq> length (subset_strategies_list df risk_free_rate i)
      then Raise ValueError
      else if length (correlation_matrix df risk_free_rate) \<le> i then Raise IndexError
      else if k_tilde df risk_free_rate null_sharpe i = 0
      then Return statistically_significant
      else case py_max (map snd (xi df risk_free_rate i)) of
             None \<Rightarrow> Raise ValueError
           | Some max_xi \<Rightarrow>
               if bonferroni_passes ppf df risk_free_rate null_sharpe alpha i max_xi
               then (case subset_strategies_list df risk_free_rate i of
                       [] \<Rightarrow> Raise IndexError
                     | s # _ \<Rightarrow> Continue (statistically_significant @ [s]))
               else Return statistically_significant)"

text \<open>
  \<open>for i in range(...)\<close>: when the range is used up, control leaves the loop with the
  list built so far (\<open>Completed\<close>); a \<open>return\<close> inside the body ends the call
  (\<open>Returned\<close>).
\<close>

datatype outcome = Returned "string list" | Completed "string list"

fun for_loop :: "(nat \<Rightarrow> string list \<Rightarrow> step) \<Rightarrow> nat list \<Rightarrow> string list \<Rightarrow> error + outcome" where
  "for_loop body [] acc = Inr (Completed acc)"
| "for_loop body (i # rest) acc =
     (case body i acc of
        Continue acc' \<Rightarrow> for_loop body rest acc'
      | Return r \<Rightarrow> Inr (Returned r)
      | Raise e \<Rightarrow> Inl e)"

definition run_loop ::
  "(fl \<Rightarrow> fl) \<Rightarrow> dataframe \<Rightarrow> fl \<Rightarrow> fl \<Rightarrow> fl \<Rightarrow> error + outcome" where
  "run_loop ppf df risk_free_rate null_sharpe alpha =
     for_loop (loop_body ppf df risk_free_rate null_sharpe alpha)
       [0..<n_strategies df - 2] []"

text \<open>
  Nothing follows the loop in the function: after the last iteration the call ends
  without a \<open>return\<close> statement, and its value is \<open>None\<close>.
\<close>

definition superior_predictive_ability ::
  "(fl \<Rightarrow> fl) \<Rightarrow> dataframe \<Rightarrow> fl \<Rightarrow> fl \<Rightarrow> fl \<Rightarrow> error + pyval" where
  "superior_predictive_ability ppf log_returns_df risk_free_rate null_sharpe alpha =
     (case run_loop ppf log_returns_df risk_free_rate null_sharpe alpha of
        Inl e \<Rightarrow> Inl e
      | Inr (Returned statistically_significant) \<Rightarrow> Inr (PyList statistically_significant)
      | Inr (Completed statistically_significant) \<Rightarrow> Inr PyNone)"

text \<open>The list \<open>statistically_significant\<close> at the moment the call ends.\<close>

fun accepted :: "outcome \<Rightarrow> string list" where
  "accepted (Returned l) = l"
| "accepted (Completed l) = l"

section \<open>Definitions used to state and to test the properties\<close>

text \<open>
  The log-log correction term of line 72 as a real number; it is what the program
  computes when there are at least three time periods (\<open>loglog_term\<close> below).
\<close>

definition loglog :: "nat \<Rightarrow> real" where
  "loglog t = sqrt (2 * ln (ln (real t)) / real t)"


text \<open>
  Concrete runs need a concrete \<open>ppf\<close>. \<open>ppf_coarse\<close> has the values of
  \<open>norm.ppf\<close> at \<open>0\<close>, \<open>1/2\<close> and \<open>1\<close> and outside \<open>[0, 1]\<close>, where scipy
  returns \<open>nan\<close>; in between it is the step \<open>-2\<close>, \<open>2\<close> (\<open>norm.ppf\<close> is about
  \<open>1.64\<close> at \<open>0.95\<close>). The runs below compare it with a statistic of \<open>10\<close>,
  above every quantile in play, or with a statistic of \<open>1\<close>, below the quantile at
  \<open>0.95\<close> and above the one at \<open>1/2\<close>, so they take the same branches with the
  exact quantile.
\<close>

definition ppf_coarse :: "fl \<Rightarrow> fl" where
  "ppf_coarse p =
     (case p of
        Fin x \<Rightarrow>
          (if x < 0 \<or> 1 < x then NaN
           else if x = 0 then NInf
           else if x = 1 then PInf
           else if x < 1 / 2 then Fin (- 2)
           else if x = 1 / 2 then Fin 0
           else Fin 2)
      | _ \<Rightarrow> NaN)"

text \<open>
  Example panels over five periods. Each column has standard deviation \<open>5\<close>; the
  Sharpe ratios at a risk-free rate of zero are \<open>10\<close>, \<open>-100\<close>, \<open>-200\<close> and
  \<open>-300\<close> for \<open>A\<close>, \<open>B\<close>, \<open>C\<close> and \<open>D\<close>, and \<open>A\<close> is uncorrelated with
  the other three.
\<close>

definition col_A :: "fl list" where "col_A = map Fin [55, 55, 45, 45, 50]"

definition col_B :: "fl list" where "col_B = map Fin [- 495, - 505, - 495, - 505, - 500]"

definition col_C :: "fl list" where "col_C = map Fin [- 993, - 1007, - 1001, - 999, - 1000]"

definition col_D :: "fl list" where "col_D = map Fin [- 1499, - 1501, - 1507, - 1493, - 1500]"

definition panel4 :: dataframe where
  "panel4 = \<lparr>index_len = 5,
             columns = [(''C'', col_C), (''A'', col_A), (''D'', col_D), (''B'', col_B)]\<rparr>"

text \<open>
  The same columns in smaller panels, and a panel with only two periods.
\<close>

definition panel3 :: dataframe where
  "panel3 = \<lparr>index_len = 5, columns = [(''B'', col_B), (''A'', col_A), (''C'', col_C)]\<rparr>"

definition panel2 :: dataframe where
  "panel2 = \<lparr>index_len = 5, columns = [(''A'', col_A), (''B'', col_B)]\<rparr>"



text \<open>
  The adjusted statistic as section 4.3 of the specification words it, to be compared
  with \<open>xi\<close>: for the subset of size \<open>m = N - i\<close>, the mean \<open>zeta_bar\<close> of the
  subset's Sharpe ratios, the mean \<open>rho_bar\<close> of the entries \<open>correlation[i, i+1:N]\<close>
  of the correlation matrix of the raw returns in ranked column order,
  \<open>c = 1 / sqrt (1 + (m - 1) * rho_bar)\<close>, and for each strategy of the subset
  \<open>c * zeta_bar + (1 / sqrt (1 - rho_bar)) * (its Sharpe ratio - zeta_bar)\<close>.
  The means are plain means, sum over count.
\<close>

definition sharpe_of :: "dataframe \<Rightarrow> fl \<Rightarrow> string \<Rightarrow> fl" where
  "sharpe_of df risk_free_rate name =
     (case map_of (sharpe_ratios df risk_free_rate) name of Some s \<Rightarrow> s | None \<Rightarrow> NaN)"

definition correlation_spec :: "dataframe \<Rightarrow> fl \<Rightarrow> fl list list" where
  "correlation_spec df risk_free_rate =
     np_corrcoef
       (map (\<lambda>name. case map_of (columns df) name of Some col \<Rightarrow> col | None \<Rightarrow> [])
            (strategies_list df risk_free_rate))
       (index_len df)"

definition rho_bar_spec :: "dataframe \<Rightarrow> fl \<Rightarrow> nat \<Rightarrow> fl" where
  "rho_bar_spec df risk_free_rate i =
     np_mean (map (\<lambda>j. correlation_spec df risk_free_rate ! i ! j)
                  [i + 1..<n_strategies df])"

definition c_spec :: "dataframe \<Rightarrow> fl \<Rightarrow> nat \<Rightarrow> fl" where
  "c_spec df risk_free_rate i =
     fdiv (Fin 1)
       (fsqrt (fadd (Fin 1)
          (fmul (Fin (real (n_strategies df - i) - 1)) (rho_bar_spec df risk_free_rate i))))"

definition zeta_bar_spec :: "dataframe \<Rightarrow> fl \<Rightarrow> nat \<Rightarrow> fl" where
  "zeta_bar_spec df risk_free_rate i =
     np_mean (map (sharpe_of df risk_free_rate) (drop i (strategies_list df risk_free_rate)))"

definition adjusted_statistic_spec :: "dataframe \<Rightarrow> fl \<Rightarrow> nat \<Rightarrow> string \<Rightarrow> fl" where
  "adjusted_statistic_spec df risk_free_rate i name =
     fadd (fmul (c_spec df risk_free_rate i) (zeta_bar_spec df risk_free_rate i))
          (fmul (fdiv (Fin 1) (fsqrt (fsub (Fin 1) (rho_bar_spec df risk_free_rate i))))
                (fsub (sharpe_of df risk_free_rate name) (zeta_bar_spec df risk_free_rate i)))"

text \<open>
  The four-column panel with a second column \<open>B\<close> whose Sharpe ratio is \<open>1\<close>: it
  passes the threshold, and whether it is accepted depends on \<open>alpha\<close>.
\<close>

definition col_B1 :: "fl list" where "col_B1 = map Fin [10, 0, 10, 0, 5]"

definition panel4b :: dataframe where
  "panel4b = \<lparr>index_len = 5,
              columns = [(''C'', col_C), (''A'', col_A), (''D'', col_D), (''B'', col_B1)]\<rparr>"

section \<open>Auxiliary lemmas\<close>

lemma keys_series_map2:
  "length s = length t \<Longrightarrow> map fst (series_map2 f s t) = map fst s"
  unfolding series_map2_def
  by (induction s t rule: list_induct2) auto

lemma keys_sharpe_ratios: "map fst (sharpe_ratios df r) = map fst (columns df)"
proof -
  have "map fst (mean_returns df r) = map fst (columns df)"
    by (simp add: mean_returns_def df_mean_def excess_returns_def df_sub_def
        comp_def case_prod_beta)
  moreover have "length (mean_returns df r) = length (std_devs df r)"
    by (simp add: mean_returns_def std_devs_def df_mean_def df_std_def)
  ultimately show ?thesis
    by (simp add: sharpe_ratios_def keys_series_map2)
qed

lemma mset_insert_desc: "mset (insert_desc x ys) = add_mset x (mset ys)"
  by (induction ys) auto

lemma mset_foldr_insert_desc: "mset (foldr insert_desc xs []) = mset xs"
  by (induction xs) (auto simp: mset_insert_desc)

lemma mset_sort_values_desc: "mset (sort_values_desc s) = mset s"
proof -
  have "mset (filter (\<lambda>kv. snd kv \<noteq> NaN) s) + mset (filter (\<lambda>kv. snd kv = NaN) s) = mset s"
    by (induction s) auto
  then show ?thesis
    by (simp add: sort_values_desc_def mset_foldr_insert_desc)
qed

lemma mset_strategies_list:
  "mset (strategies_list df r) = mset (map fst (columns df))"
proof -
  have "mset (map fst (sort_values_desc (sharpe_ratios df r)))
        = image_mset fst (mset (sort_values_desc (sharpe_ratios df r)))"
    by simp
  also have "\<dots> = image_mset fst (mset (sharpe_ratios df r))"
    by (simp only: mset_sort_values_desc)
  also have "\<dots> = mset (map fst (sharpe_ratios df r))" by simp
  finally show ?thesis
    by (simp add: strategies_list_def keys_sharpe_ratios)
qed

lemma length_strategies_list: "length (strategies_list df r) = n_strategies df"
  using mset_eq_length [OF mset_strategies_list [of df r]]
  by (simp add: n_strategies_def shape_def)

lemma set_strategies_list: "set (strategies_list df r) = fst ` set (columns df)"
  using mset_eq_setD [OF mset_strategies_list [of df r]] by simp

lemma length_loc:
  "length (loc s labels) = sum_list (map (\<lambda>l. count_list (map fst s) l) labels)"
proof -
  have "length (filter (\<lambda>kv. fst kv = l) s) = count_list (map fst s) l" for l
    by (induction s) auto
  then show ?thesis
    by (simp add: loc_def length_concat comp_def)
qed

lemma loc_distinct:
  "distinct (map fst s) \<Longrightarrow> set labels \<subseteq> fst ` set s \<Longrightarrow> map fst (loc s labels) = labels"
proof (induction labels)
  case Nil
  then show ?case by (simp add: loc_def)
next
  case (Cons l ls)
  from Cons.prems obtain v where v: "(l, v) \<in> set s" by auto
  have "filter (\<lambda>kv. fst kv = l) s = [(l, v)]"
    using Cons.prems(1) v
  proof (induction s)
    case Nil
    then show ?case by simp
  next
    case (Cons a s)
    then show ?case
      by (cases "a = (l, v)") (auto simp: filter_empty_conv rev_image_eqI)
  qed
  with Cons show ?case by (simp add: loc_def)
qed

lemma length_np_corrcoef: "length (np_corrcoef X t) = length X"
  by (simp add: np_corrcoef_def np_cov_def Let_def)

lemma fmul_one [simp]: "fmul a (Fin 1) = a"
  by (cases a) auto

lemma sum_list_count_ge:
  "set labels \<subseteq> set ks \<Longrightarrow> length labels \<le> sum_list (map (count_list ks) labels)"
proof (induction labels)
  case Nil
  then show ?case by simp
next
  case (Cons l ls)
  then have "count_list ks l \<noteq> 0" by (simp add: count_list_0_iff)
  with Cons show ?case by simp
qed

lemma sum_list_count_eq_one:
  "set labels \<subseteq> set ks \<Longrightarrow> sum_list (map (count_list ks) labels) = length labels \<Longrightarrow>
   \<forall>l \<in> set labels. count_list ks l = 1"
proof (induction labels)
  case Nil
  then show ?case by simp
next
  case (Cons l ls)
  then have "count_list ks l \<noteq> 0" by (simp add: count_list_0_iff)
  then have pos: "0 < count_list ks l" by simp
  have ge: "length ls \<le> sum_list (map (count_list ks) ls)"
    using Cons.prems(1) by (intro sum_list_count_ge) simp
  from Cons.prems(2) pos ge have "count_list ks l = 1"
    and "sum_list (map (count_list ks) ls) = length ls" by simp_all
  with Cons show ?case by simp
qed

lemma length_subset_sharpe_ge:
  "length (subset_strategies_list df r i) \<le> length (subset_sharpe_ratios df r i)"
proof -
  have "set (subset_strategies_list df r i) \<subseteq> set (map fst (sharpe_ratios df r))"
    using set_drop_subset [of i "strategies_list df r"]
    by (simp add: subset_strategies_list_def set_strategies_list keys_sharpe_ratios)
  then show ?thesis
    unfolding subset_sharpe_ratios_def length_loc by (rule sum_list_count_ge)
qed

lemma distinct_strategies_list:
  "distinct (strategies_list df r) = distinct (map fst (columns df))"
  using mset_strategies_list [of df r] by (metis distinct_count_atmost_1 set_mset_mset)

lemma series_ok_iff_distinct:
  "length (subset_sharpe_ratios df r 0) = length (subset_strategies_list df r 0)
   \<longleftrightarrow> distinct (map fst (columns df))"
proof
  assume eq: "length (subset_sharpe_ratios df r 0) = length (subset_strategies_list df r 0)"
  let ?ks = "map fst (sharpe_ratios df r)"
  let ?ls = "strategies_list df r"
  have sub: "set ?ls \<subseteq> set ?ks"
    by (simp add: set_strategies_list keys_sharpe_ratios)
  from eq have "sum_list (map (count_list ?ks) ?ls) = length ?ls"
    by (simp add: subset_sharpe_ratios_def subset_strategies_list_def length_loc)
  from sum_list_count_eq_one [OF sub this]
  have one: "\<forall>l \<in> set ?ls. count_list ?ks l = 1" .
  have "set ?ks = set ?ls"
    by (simp add: set_strategies_list keys_sharpe_ratios)
  with one have "\<forall>l \<in> set ?ks. count_list ?ks l = 1" by simp
  then have "distinct ?ks"
    by (metis count_list_0_iff count_mset distinct_count_atmost_1)
  then show "distinct (map fst (columns df))" by (simp add: keys_sharpe_ratios)
next
  assume d: "distinct (map fst (columns df))"
  have "map fst (loc (sharpe_ratios df r) (strategies_list df r)) = strategies_list df r"
    by (rule loc_distinct)
       (simp_all add: keys_sharpe_ratios d set_strategies_list flip: set_map)
  then show "length (subset_sharpe_ratios df r 0) = length (subset_strategies_list df r 0)"
    by (metis subset_sharpe_ratios_def subset_strategies_list_def drop0 length_map)
qed

lemma keys_subset_sharpe:
  assumes "distinct (map fst (columns df))"
  shows "map fst (subset_sharpe_ratios df r i) = subset_strategies_list df r i"
  unfolding subset_sharpe_ratios_def
proof (rule loc_distinct)
  show "distinct (map fst (sharpe_ratios df r))" by (simp add: keys_sharpe_ratios assms)
  show "set (subset_strategies_list df r i) \<subseteq> fst ` set (sharpe_ratios df r)"
    using set_drop_subset [of i "strategies_list df r"]
    by (simp add: subset_strategies_list_def set_strategies_list keys_sharpe_ratios flip: set_map)
qed

lemma length_correlation_matrix_ge:
  "n_strategies df \<le> length (correlation_matrix df r)"
proof -
  have "length (strategies_list df r)
        \<le> sum_list (map (count_list (map fst (columns df))) (strategies_list df r))"
    by (rule sum_list_count_ge) (simp add: set_strategies_list)
  then show ?thesis
    by (simp add: correlation_matrix_def length_np_corrcoef length_loc length_strategies_list)
qed

lemma loop_body_Continue:
  assumes "loop_body ppf df r null alpha i acc = Continue acc'"
  shows "i < length (strategies_list df r) \<and> acc' = acc @ [strategies_list df r ! i]"
proof -
  from assms obtain s rest where
    sub: "subset_strategies_list df r i = s # rest" and acc': "acc' = acc @ [s]"
    by (auto simp: loop_body_def split: if_splits option.splits list.splits)
  from sub have "drop i (strategies_list df r) \<noteq> []"
    by (simp add: subset_strategies_list_def)
  then have lt: "i < length (strategies_list df r)" by simp
  from sub have "s = hd (drop i (strategies_list df r))"
    by (simp add: subset_strategies_list_def)
  with lt have "s = strategies_list df r ! i" by (simp add: hd_drop_conv_nth)
  with lt acc' show ?thesis by simp
qed

lemma loop_body_Return:
  "loop_body ppf df r null alpha i acc = Return l \<Longrightarrow> l = acc"
  by (auto simp: loop_body_def split: if_splits option.splits list.splits)

lemma xi_nonempty:
  "k_tilde df r null i \<noteq> 0 \<Longrightarrow> py_max (map snd (xi df r i)) \<noteq> None"
  by (auto simp: k_tilde_def strategies_passed_list_def py_max_def split: list.splits)

lemma loop_body_cases:
  assumes ok: "length (subset_sharpe_ratios df r i) = length (subset_strategies_list df r i)"
    and i: "i < n_strategies df"
  shows "loop_body ppf df r null alpha i acc =
     (if k_tilde df r null i = 0 then Return acc
      else if bonferroni_passes ppf df r null alpha i (the (py_max (map snd (xi df r i))))
           then Continue (acc @ [strategies_list df r ! i])
           else Return acc)"
proof -
  from i have lt: "i < length (strategies_list df r)" by (simp add: length_strategies_list)
  then have sub: "subset_strategies_list df r i
      = strategies_list df r ! i # drop (Suc i) (strategies_list df r)"
    by (simp add: subset_strategies_list_def Cons_nth_drop_Suc)
  from i have corr: "\<not> length (correlation_matrix df r) \<le> i"
    using length_correlation_matrix_ge [of df r] by simp
  show ?thesis
  proof (cases "k_tilde df r null i = 0")
    case True
    with ok corr show ?thesis by (simp add: loop_body_def)
  next
    case False
    from xi_nonempty [OF this] obtain m where m: "py_max (map snd (xi df r i)) = Some m"
      by auto
    with False ok corr sub show ?thesis by (simp add: loop_body_def)
  qed
qed

lemma for_loop_append:
  "for_loop body (xs @ ys) acc =
     (case for_loop body xs acc of
        Inr (Completed acc') \<Rightarrow> for_loop body ys acc'
      | other \<Rightarrow> other)"
  by (induction xs arbitrary: acc) (auto split: step.splits)

lemma for_loop_take:
  assumes "for_loop (loop_body ppf df r null alpha) [start..<stop] acc = Inr res"
    and "acc = take start (strategies_list df r)"
    and "start \<le> stop"
  shows "case res of
           Returned l \<Rightarrow> \<exists>k. start \<le> k \<and> k < stop \<and> l = take k (strategies_list df r)
         | Completed l \<Rightarrow> l = take stop (strategies_list df r)"
  using assms
proof (induction "stop - start" arbitrary: start acc)
  case 0
  then show ?case by auto
next
  case (Suc d)
  then have lt: "start < stop" by simp
  then have range: "[start..<stop] = start # [Suc start..<stop]" by (simp add: upt_conv_Cons)
  show ?case
  proof (cases "loop_body ppf df r null alpha start acc")
    case (Continue acc')
    from loop_body_Continue [OF this] Suc.prems(2)
    have acc': "acc' = take (Suc start) (strategies_list df r)"
      by (simp add: take_Suc_conv_app_nth)
    from Suc.prems(1) Continue range
    have run: "for_loop (loop_body ppf df r null alpha) [Suc start..<stop] acc' = Inr res"
      by simp
    have "d = stop - Suc start" using Suc.hyps(2) by simp
    from Suc.hyps(1) [OF this run acc'] lt
    show ?thesis by (cases res) (auto intro: Suc_leD)
  next
    case (Return l)
    with Suc.prems(1) range have "res = Returned l" by simp
    moreover from loop_body_Return [OF Return] have "l = acc" .
    ultimately show ?thesis using Suc.prems(2) lt by auto
  next
    case (Raise e)
    with Suc.prems(1) range show ?thesis by simp
  qed
qed

lemma run_loop_take:
  assumes "run_loop ppf df r null alpha = Inr res"
  shows "case res of
           Returned l \<Rightarrow> \<exists>k < n_strategies df - 2. l = take k (strategies_list df r)
         | Completed l \<Rightarrow> l = take (n_strategies df - 2) (strategies_list df r)"
  using for_loop_take [of ppf df r null alpha 0 "n_strategies df - 2" "[]" res] assms
  by (auto simp: run_loop_def split: outcome.splits)

lemma sqrt_25: "sqrt 25 = 5"
  by (rule real_sqrt_unique) auto

lemmas col_defs = col_A_def col_B_def col_C_def col_D_def

lemma sharpe_panel4:
  "sharpe_ratios panel4 (Fin 0)
     = [(''C'', Fin (- 200)), (''A'', Fin 10), (''D'', Fin (- 300)), (''B'', Fin (- 100))]"
  by (simp add: sharpe_ratios_def mean_returns_def std_devs_def excess_returns_def df_sub_def
      df_mean_def df_std_def series_map2_def panel4_def col_defs pd_mean_def pd_std_def
      notna_def of_count_def fsub_def sqrt_25)

lemma ranking_panel4:
  "strategies_list panel4 (Fin 0) = [''A'', ''B'', ''C'', ''D'']"
  by (simp add: strategies_list_def sharpe_panel4 sort_values_desc_def)

lemma ranked_columns_panel4:
  "map snd (loc (columns panel4) [''A'', ''B'', ''C'', ''D'']) = [col_A, col_B, col_C, col_D]"
  by (simp add: loc_def panel4_def)

lemma cov_panel4:
  "np_cov [col_A, col_B, col_C, col_D] 5
     = [[Fin 25, Fin 0, Fin 0, Fin 0],
        [Fin 0, Fin 25, Fin 15, Fin (- 15)],
        [Fin 0, Fin 15, Fin 25, Fin 7],
        [Fin 0, Fin (- 15), Fin 7, Fin 25]]"
  by (simp add: np_cov_def np_mean_def dot_def of_count_def fsub_def col_defs)

lemma upt_4: "[0..<4] = [0, 1, 2, 3]"
  by (simp add: upt_rec)

lemma corr_panel4:
  "correlation_matrix panel4 (Fin 0)
     = [[Fin 1, Fin 0, Fin 0, Fin 0],
        [Fin 0, Fin 1, Fin (3/5), Fin (- 3/5)],
        [Fin 0, Fin (3/5), Fin 1, Fin (7/25)],
        [Fin 0, Fin (- 3/5), Fin (7/25), Fin 1]]"
proof -
  have "index_len panel4 = 5" by (simp add: panel4_def)
  then show ?thesis
    by (simp add: correlation_matrix_def ranking_panel4 ranked_columns_panel4
        np_corrcoef_def cov_panel4 upt_4 sqrt_25)
qed

lemma ln_ln_nonneg:
  assumes "3 \<le> t"
  shows "1 \<le> ln (real t)" and "0 \<le> ln (ln (real t))"
proof -
  have "exp 1 \<le> real t" using exp_le assms by (simp add: order_trans [of "exp 1" 3])
  moreover have "0 < real t" using assms by simp
  ultimately have "ln (exp 1) \<le> ln (real t)"
    by (subst ln_le_cancel_iff) simp_all
  then show "1 \<le> ln (real t)" by simp
  then show "0 \<le> ln (ln (real t))" by simp
qed

lemma loglog_term:
  assumes "3 \<le> t"
  shows "fsqrt (fdiv (fmul (Fin 2) (flog (flog (of_count t)))) (of_count t)) = Fin (loglog t)"
proof -
  from ln_ln_nonneg [OF assms] have a: "0 < ln (real t)" and b: "0 \<le> ln (ln (real t))"
    by simp_all
  from assms have t: "0 < real t" by simp
  from b t have "0 \<le> 2 * ln (ln (real t)) / real t" by simp
  with a t show ?thesis by (simp add: of_count_def loglog_def not_less)
qed

lemma loglog_bounds:
  assumes "3 \<le> t"
  shows "0 \<le> loglog t" and "loglog t < 2"
proof -
  from ln_ln_nonneg [OF assms] have a: "1 \<le> ln (real t)" and b: "0 \<le> ln (ln (real t))" .
  from assms have t: "0 < real t" by simp
  from b t show "0 \<le> loglog t" by (simp add: loglog_def)
  have "ln (ln (real t)) \<le> ln (real t) - 1" using a by (intro ln_le_minus_one) simp
  also have "\<dots> \<le> real t - 1 - 1" using ln_le_minus_one [OF t] by simp
  finally have "2 * ln (ln (real t)) \<le> 2 * real t" by simp
  then have "2 * ln (ln (real t)) / real t \<le> 2" using t by (simp add: divide_le_eq)
  then have "loglog t \<le> sqrt 2" unfolding loglog_def by (rule real_sqrt_le_mono)
  also have "sqrt 2 < sqrt 4" by (rule real_sqrt_less_mono) simp
  also have "sqrt 4 = 2" by (rule real_sqrt_unique) auto
  finally show "loglog t < 2" .
qed

lemma subset_sharpe_panel4_0:
  "subset_sharpe_ratios panel4 (Fin 0) 0
     = [(''A'', Fin 10), (''B'', Fin (- 100)), (''C'', Fin (- 200)), (''D'', Fin (- 300))]"
  by (simp add: subset_sharpe_ratios_def subset_strategies_list_def ranking_panel4
      sharpe_panel4 loc_def)

lemma subset_sharpe_panel4_1:
  "subset_sharpe_ratios panel4 (Fin 0) (Suc 0)
     = [(''B'', Fin (- 100)), (''C'', Fin (- 200)), (''D'', Fin (- 300))]"
  by (simp add: subset_sharpe_ratios_def subset_strategies_list_def ranking_panel4
      sharpe_panel4 loc_def)

lemma rho_panel4: "rho panel4 (Fin 0) 0 = Fin 0" "rho panel4 (Fin 0) (Suc 0) = Fin 0"
  by (simp_all add: rho_def corr_panel4 np_mean_def of_count_def)

lemma c_panel4: "c panel4 (Fin 0) 0 = Fin 1" "c panel4 (Fin 0) (Suc 0) = Fin 1"
  by (simp_all add: c_def rho_panel4 subset_n_strategies_def subset_strategies_list_def
      ranking_panel4 of_count_def fsub_def)

lemma xi_panel4_0:
  "xi panel4 (Fin 0) 0
     = [(''A'', Fin 10), (''B'', Fin (- 100)), (''C'', Fin (- 200)), (''D'', Fin (- 300))]"
  by (simp add: xi_def term1_def term2_def zeta_ones_like_def zeta_bar_def
      subset_sharpe_panel4_0 rho_panel4 c_panel4 subset_strategies_list_def ranking_panel4
      series_map2_def series_scale_def pd_mean_def notna_def of_count_def fsub_def)

lemma xi_panel4_1:
  "xi panel4 (Fin 0) (Suc 0)
     = [(''B'', Fin (- 100)), (''C'', Fin (- 200)), (''D'', Fin (- 300))]"
  by (simp add: xi_def term1_def term2_def zeta_ones_like_def zeta_bar_def
      subset_sharpe_panel4_1 rho_panel4 c_panel4 subset_strategies_list_def ranking_panel4
      series_map2_def series_scale_def pd_mean_def notna_def of_count_def fsub_def)

lemma threshold_panel4:
  "initial_threshold panel4 (Fin 0) (Fin 0) 0 = Fin (- loglog 5)"
  "initial_threshold panel4 (Fin 0) (Fin 0) (Suc 0) = Fin (- loglog 5)"
proof -
  have "n_periods panel4 = 5" by (simp add: n_periods_def shape_def panel4_def)
  then show "initial_threshold panel4 (Fin 0) (Fin 0) 0 = Fin (- loglog 5)"
    "initial_threshold panel4 (Fin 0) (Fin 0) (Suc 0) = Fin (- loglog 5)"
    using loglog_term [of 5]
    by (simp_all add: initial_threshold_def c_panel4 fsub_def)
qed

lemma passed_panel4:
  "strategies_passed_list panel4 (Fin 0) (Fin 0) 0 = [''A'']"
  "strategies_passed_list panel4 (Fin 0) (Fin 0) (Suc 0) = []"
  using loglog_bounds [of 5]
  by (simp_all add: strategies_passed_list_def threshold_panel4 xi_panel4_0 xi_panel4_1)

lemma k_tilde_panel4:
  "k_tilde panel4 (Fin 0) (Fin 0) 0 = 1" "k_tilde panel4 (Fin 0) (Fin 0) (Suc 0) = 0"
  by (simp_all add: k_tilde_def passed_panel4)

lemma distinct_panel4: "distinct (map fst (columns panel4))"
  by (simp add: panel4_def)

lemma n_strategies_panel4: "n_strategies panel4 = 4"
  by (simp add: n_strategies_def shape_def panel4_def)

lemma run_loop_panel4:
  "run_loop ppf_coarse panel4 (Fin 0) (Fin 0) (Fin (1 / 20)) = Inr (Returned [''A''])"
proof -
  have ok: "length (subset_sharpe_ratios panel4 (Fin 0) i)
            = length (subset_strategies_list panel4 (Fin 0) i)" for i
    using keys_subset_sharpe [OF distinct_panel4, of "Fin 0" i] by (metis length_map)
  have b0: "loop_body ppf_coarse panel4 (Fin 0) (Fin 0) (Fin (1 / 20)) 0 [] = Continue [''A'']"
    by (subst loop_body_cases [OF ok])
       (simp_all add: n_strategies_panel4 k_tilde_panel4 bonferroni_passes_def xi_panel4_0
         py_max_def c_panel4 ranking_panel4 of_count_def fsub_def ppf_coarse_def)
  have b1: "loop_body ppf_coarse panel4 (Fin 0) (Fin 0) (Fin (1 / 20)) (Suc 0) [''A'']
            = Return [''A'']"
    by (subst loop_body_cases [OF ok]) (simp_all add: n_strategies_panel4 k_tilde_panel4)
  have "[0..<n_strategies panel4 - 2] = [0, Suc 0]"
    by (simp add: n_strategies_panel4 upt_rec)
  then show ?thesis by (simp add: run_loop_def b0 b1)
qed

lemma loop_body_no_raise_distinct:
  assumes "loop_body ppf df r null alpha 0 acc \<noteq> Raise ValueError"
    and "0 < n_strategies df"
  shows "distinct (map fst (columns df))"
proof -
  have "length (subset_sharpe_ratios df r 0) = length (subset_strategies_list df r 0)"
  proof (rule ccontr)
    assume "length (subset_sharpe_ratios df r 0) \<noteq> length (subset_strategies_list df r 0)"
    then have "loop_body ppf df r null alpha 0 acc = Raise ValueError"
      by (simp add: loop_body_def)
    with assms(1) show False by simp
  qed
  then show ?thesis by (simp add: series_ok_iff_distinct)
qed

lemma Returned_distinct:
  assumes "run_loop ppf df r null alpha = Inr (Returned l)"
  shows "distinct (strategies_list df r)"
proof (cases "n_strategies df - 2")
  case 0
  with assms show ?thesis by (simp add: run_loop_def)
next
  case (Suc m)
  then have range: "[0..<n_strategies df - 2] = 0 # [Suc 0..<n_strategies df - 2]"
    by (simp add: upt_conv_Cons)
  from assms have "loop_body ppf df r null alpha 0 [] \<noteq> Raise ValueError"
    by (auto simp: run_loop_def range)
  moreover from Suc have "0 < n_strategies df" by simp
  ultimately show ?thesis
    using loop_body_no_raise_distinct by (simp add: distinct_strategies_list)
qed

lemma series_ok_distinct:
  "distinct (map fst (columns df)) \<Longrightarrow>
   length (subset_sharpe_ratios df r i) = length (subset_strategies_list df r i)"
  using keys_subset_sharpe [of df r i] by (metis length_map)

lemma for_loop_no_raise:
  assumes "distinct (map fst (columns df))"
    and "\<forall>i \<in> set idx. i < n_strategies df"
  shows "\<exists>res. for_loop (loop_body ppf df r null alpha) idx acc = Inr res
               \<and> prefix acc (accepted res)"
  using assms(2)
proof (induction idx arbitrary: acc)
  case Nil
  then show ?case by simp
next
  case (Cons i idx)
  then have i: "i < n_strategies df" by simp
  note step = loop_body_cases [OF series_ok_distinct [OF assms(1)] i,
      where r = r and ppf = ppf and null = null and alpha = alpha and acc = acc]
  show ?case
  proof (cases "loop_body ppf df r null alpha i acc")
    case (Continue acc')
    from Cons.IH [of acc'] Cons.prems obtain res where
      res: "for_loop (loop_body ppf df r null alpha) idx acc' = Inr res"
        "prefix acc' (accepted res)" by auto
    from Continue step have "acc' = acc @ [strategies_list df r ! i]"
      by (auto split: if_splits)
    with res have "prefix acc (accepted res)" by (auto dest: append_prefixD)
    with res Continue show ?thesis by simp
  next
    case (Return l)
    with step have "l = acc" by (auto split: if_splits)
    with Return show ?thesis by simp
  next
    case (Raise e)
    with step show ?thesis by (auto split: if_splits)
  qed
qed


lemma fsub_NaN [simp]: "fsub a NaN = NaN"
  by (cases a) (simp_all add: fsub_def)

lemma fgt_NaN [simp]: "fgt a NaN = False"
  by (cases a) simp_all






lemma run_loop_split:
  assumes "i < n_strategies df - 2"
    and "for_loop (loop_body ppf df r null alpha) [0..<i] [] = Inr (Completed acc)"
  shows "run_loop ppf df r null alpha
    = for_loop (loop_body ppf df r null alpha) (i # [Suc i..<n_strategies df - 2]) acc"
proof -
  from assms(1) have "[0..<n_strategies df - 2] = [0..<i] @ (i # [Suc i..<n_strategies df - 2])"
    by (metis le_add2 le_add_same_cancel2 less_imp_le_nat upt_add_eq_append upt_conv_Cons
        le_add_diff_inverse)
  then show ?thesis by (simp add: run_loop_def for_loop_append assms(2))
qed

lemma loop_body_panel4:
  "loop_body ppf_coarse panel4 (Fin 0) (Fin 0) (Fin (1 / 20)) 0 [] = Continue [''A'']"
  "loop_body ppf_coarse panel4 (Fin 0) (Fin 0) (Fin (1 / 20)) (Suc 0) [''A''] = Return [''A'']"
proof -
  have ok: "length (subset_sharpe_ratios panel4 (Fin 0) i)
            = length (subset_strategies_list panel4 (Fin 0) i)" for i
    by (rule series_ok_distinct [OF distinct_panel4])
  show "loop_body ppf_coarse panel4 (Fin 0) (Fin 0) (Fin (1 / 20)) 0 [] = Continue [''A'']"
    by (subst loop_body_cases [OF ok])
       (simp_all add: n_strategies_panel4 k_tilde_panel4 bonferroni_passes_def xi_panel4_0
         py_max_def c_panel4 ranking_panel4 of_count_def fsub_def ppf_coarse_def)
  show "loop_body ppf_coarse panel4 (Fin 0) (Fin 0) (Fin (1 / 20)) (Suc 0) [''A'']
            = Return [''A'']"
    by (subst loop_body_cases [OF ok]) (simp_all add: n_strategies_panel4 k_tilde_panel4)
qed

lemma sharpe_panel3:
  "sharpe_ratios panel3 (Fin 0) = [(''B'', Fin (- 100)), (''A'', Fin 10), (''C'', Fin (- 200))]"
  by (simp add: sharpe_ratios_def mean_returns_def std_devs_def excess_returns_def df_sub_def
      df_mean_def df_std_def series_map2_def panel3_def col_defs pd_mean_def pd_std_def
      notna_def of_count_def fsub_def sqrt_25)

lemma ranking_panel3: "strategies_list panel3 (Fin 0) = [''A'', ''B'', ''C'']"
  by (simp add: strategies_list_def sharpe_panel3 sort_values_desc_def)

lemma ranked_columns_panel3:
  "map snd (loc (columns panel3) [''A'', ''B'', ''C'']) = [col_A, col_B, col_C]"
  by (simp add: loc_def panel3_def)

lemma cov_panel3:
  "np_cov [col_A, col_B, col_C] 5
     = [[Fin 25, Fin 0, Fin 0], [Fin 0, Fin 25, Fin 15], [Fin 0, Fin 15, Fin 25]]"
  by (simp add: np_cov_def np_mean_def dot_def of_count_def fsub_def col_defs)

lemma upt_3: "[0..<3] = [0, 1, 2]"
  by (simp add: upt_rec)

lemma corr_panel3:
  "correlation_matrix panel3 (Fin 0)
     = [[Fin 1, Fin 0, Fin 0], [Fin 0, Fin 1, Fin (3/5)], [Fin 0, Fin (3/5), Fin 1]]"
proof -
  have "index_len panel3 = 5" by (simp add: panel3_def)
  then show ?thesis
    by (simp add: correlation_matrix_def ranking_panel3 ranked_columns_panel3
        np_corrcoef_def cov_panel3 upt_3 sqrt_25)
qed

lemma subset_sharpe_panel3:
  "subset_sharpe_ratios panel3 (Fin 0) 0
     = [(''A'', Fin 10), (''B'', Fin (- 100)), (''C'', Fin (- 200))]"
  by (simp add: subset_sharpe_ratios_def subset_strategies_list_def ranking_panel3
      sharpe_panel3 loc_def)

lemma rho_panel3: "rho panel3 (Fin 0) 0 = Fin 0"
  by (simp add: rho_def corr_panel3 np_mean_def of_count_def)

lemma c_panel3: "c panel3 (Fin 0) 0 = Fin 1"
  by (simp add: c_def rho_panel3 subset_n_strategies_def subset_strategies_list_def
      ranking_panel3 of_count_def fsub_def)

lemma xi_panel3:
  "xi panel3 (Fin 0) 0 = [(''A'', Fin 10), (''B'', Fin (- 100)), (''C'', Fin (- 200))]"
  by (simp add: xi_def term1_def term2_def zeta_ones_like_def zeta_bar_def
      subset_sharpe_panel3 rho_panel3 c_panel3 subset_strategies_list_def ranking_panel3
      series_map2_def series_scale_def pd_mean_def notna_def of_count_def fsub_def)

lemma k_tilde_panel3: "k_tilde panel3 (Fin 0) (Fin 0) 0 = 1"
proof -
  have "n_periods panel3 = 5" by (simp add: n_periods_def shape_def panel3_def)
  then have "initial_threshold panel3 (Fin 0) (Fin 0) 0 = Fin (- loglog 5)"
    using loglog_term [of 5] by (simp add: initial_threshold_def c_panel3 fsub_def)
  then show ?thesis
    using loglog_bounds [of 5]
    by (simp add: k_tilde_def strategies_passed_list_def xi_panel3)
qed

lemma panel3_facts:
  "distinct (map fst (columns panel3))" "n_strategies panel3 = 3" "n_periods panel3 = 5"
  by (simp_all add: panel3_def n_strategies_def n_periods_def shape_def)

lemma loop_body_panel3:
  "loop_body ppf_coarse panel3 (Fin 0) (Fin 0) (Fin (1 / 20)) 0 [] = Continue [''A'']"
  by (subst loop_body_cases [OF series_ok_distinct [OF panel3_facts(1)]])
     (simp_all add: panel3_facts k_tilde_panel3 bonferroni_passes_def xi_panel3
       py_max_def c_panel3 ranking_panel3 of_count_def fsub_def ppf_coarse_def)

lemma for_loop_all_accept:
  assumes "\<forall>i. start \<le> i \<and> i < stop \<longrightarrow>
      (\<exists>acc'. loop_body ppf df r null alpha i (take i (strategies_list df r)) = Continue acc')"
    and "start \<le> stop"
  shows "for_loop (loop_body ppf df r null alpha) [start..<stop] (take start (strategies_list df r))
       = Inr (Completed (take stop (strategies_list df r)))"
  using assms
proof (induction "stop - start" arbitrary: start)
  case 0
  then show ?case by simp
next
  case (Suc d)
  then have lt: "start < stop" by simp
  then have range: "[start..<stop] = start # [Suc start..<stop]" by (simp add: upt_conv_Cons)
  from Suc.prems(1) lt obtain acc' where
    step: "loop_body ppf df r null alpha start (take start (strategies_list df r)) = Continue acc'"
    by auto
  from loop_body_Continue [OF step]
  have acc': "acc' = take (Suc start) (strategies_list df r)"
    by (simp add: take_Suc_conv_app_nth)
  have "for_loop (loop_body ppf df r null alpha) [Suc start..<stop]
          (take (Suc start) (strategies_list df r))
        = Inr (Completed (take stop (strategies_list df r)))"
    using Suc.hyps(2) Suc.prems(1) lt by (intro Suc.hyps(1)) auto
  with step acc' range show ?case by simp
qed

lemma loc_distinct_eq:
  assumes "distinct (map fst s)" and "set labels \<subseteq> fst ` set s"
  shows "loc s labels = map (\<lambda>l. (l, the (map_of s l))) labels"
  using assms(2)
proof (induction labels)
  case Nil
  then show ?case by (simp add: loc_def)
next
  case (Cons l ls)
  from Cons.prems obtain v where v: "(l, v) \<in> set s" by auto
  have one: "filter (\<lambda>kv. fst kv = l) s = [(l, v)]"
    using assms(1) v
  proof (induction s)
    case Nil
    then show ?case by simp
  next
    case (Cons a s)
    then show ?case
      by (cases "a = (l, v)") (auto simp: filter_empty_conv rev_image_eqI)
  qed
  from assms(1) v have "map_of s l = Some v" by simp
  with one Cons show ?case by (simp add: loc_def)
qed

lemma drop_conv_map_nth: "drop k xs = map (\<lambda>j. xs ! j) [k..<length xs]"
proof -
  have "drop k (map (\<lambda>j. xs ! j) [0..<length xs]) = map (\<lambda>j. xs ! j) [k..<length xs]"
    by (simp only: drop_map drop_upt) simp
  then show ?thesis by (simp add: map_nth)
qed

lemma length_np_corrcoef_row:
  "i < length X \<Longrightarrow> length (np_corrcoef X t ! i) = length X"
  by (simp add: np_corrcoef_def np_cov_def Let_def)

lemma notna_id: "NaN \<notin> set xs \<Longrightarrow> notna xs = xs"
  by (simp add: notna_def filter_id_conv) metis

lemma subset_within_keys:
  "set (drop i (strategies_list df r)) \<subseteq> fst ` set (sharpe_ratios df r)"
  using set_drop_subset [of i "strategies_list df r"]
  by (simp add: set_strategies_list keys_sharpe_ratios flip: set_map)

lemma subset_sharpe_spec:
  assumes "distinct (map fst (columns df))"
  shows "subset_sharpe_ratios df r i
         = map (\<lambda>name. (name, sharpe_of df r name)) (drop i (strategies_list df r))"
proof -
  have d: "distinct (map fst (sharpe_ratios df r))" by (simp add: keys_sharpe_ratios assms)
  have "the (map_of (sharpe_ratios df r) name) = sharpe_of df r name"
    if "name \<in> set (drop i (strategies_list df r))" for name
  proof -
    from that subset_within_keys [of i df r] obtain v where "(name, v) \<in> set (sharpe_ratios df r)"
      by auto
    with d have "map_of (sharpe_ratios df r) name = Some v" by simp
    then show ?thesis by (simp add: sharpe_of_def)
  qed
  then show ?thesis
    unfolding subset_sharpe_ratios_def subset_strategies_list_def
    by (simp add: loc_distinct_eq [OF d subset_within_keys])
qed

lemma correlation_matrix_spec:
  assumes "distinct (map fst (columns df))"
  shows "correlation_matrix df r = correlation_spec df r"
proof -
  have sub: "set (strategies_list df r) \<subseteq> fst ` set (columns df)"
    by (simp add: set_strategies_list)
  have "(case map_of (columns df) name of Some col \<Rightarrow> col | None \<Rightarrow> [])
        = the (map_of (columns df) name)" if "name \<in> set (strategies_list df r)" for name
  proof -
    from that sub obtain col where "(name, col) \<in> set (columns df)" by auto
    with assms have "map_of (columns df) name = Some col" by simp
    then show ?thesis by simp
  qed
  then show ?thesis
    by (simp add: correlation_matrix_def correlation_spec_def
        loc_distinct_eq [OF assms sub] comp_def cong: map_cong)
qed

lemma rho_spec:
  assumes "distinct (map fst (columns df))" and "i < n_strategies df"
  shows "rho df r i = rho_bar_spec df r i"
proof -
  have sub: "set (strategies_list df r) \<subseteq> fst ` set (columns df)"
    by (simp add: set_strategies_list)
  have "length (map snd (loc (columns df) (strategies_list df r))) = n_strategies df"
    by (simp add: loc_distinct_eq [OF assms(1) sub] length_strategies_list)
  with assms(2) have "length (correlation_matrix df r ! i) = n_strategies df"
    by (simp add: correlation_matrix_def length_np_corrcoef_row)
  then have "drop (i + 1) (correlation_matrix df r ! i)
      = map (\<lambda>j. correlation_matrix df r ! i ! j) [i + 1..<n_strategies df]"
    using drop_conv_map_nth [of "i + 1" "correlation_matrix df r ! i"] by simp
  then show ?thesis
    by (simp add: rho_def rho_bar_spec_def correlation_matrix_spec [OF assms(1)])
qed

lemma fge_trans: "fge a b \<Longrightarrow> fge b d \<Longrightarrow> fge a d"
  by (cases a; cases b; cases d) simp_all

lemma bonferroni_mono:
  assumes mono: "\<forall>p q. 0 \<le> p \<and> p \<le> q \<and> q \<le> 1 \<longrightarrow> fge (ppf (Fin q)) (ppf (Fin p))"
    and a: "0 \<le> a1" "a1 \<le> a2" "a2 \<le> 1"
    and k: "k_tilde df r null i \<noteq> 0"
    and pass: "bonferroni_passes ppf df r null (Fin a1) i m"
  shows "bonferroni_passes ppf df r null (Fin a2) i m"
proof -
  let ?k = "real (k_tilde df r null i)"
  from k have kpos: "1 \<le> ?k" by simp
  have p: "fsub (Fin 1) (fdiv (Fin a) (of_count (k_tilde df r null i))) = Fin (1 - a / ?k)" for a
    using k by (simp add: fsub_def of_count_def)
  from a kpos have le: "1 - a2 / ?k \<le> 1 - a1 / ?k"
    by (simp add: divide_right_mono)
  from a kpos have "a2 / ?k \<le> 1" by (simp add: divide_le_eq)
  then have lo: "0 \<le> 1 - a2 / ?k" by simp
  from a kpos have hi: "1 - a1 / ?k \<le> 1" by simp
  from mono lo le hi have "fge (ppf (Fin (1 - a1 / ?k))) (ppf (Fin (1 - a2 / ?k)))" by blast
  with pass show ?thesis
    unfolding bonferroni_passes_def p by (rule fge_trans)
qed

lemma alpha_mono_loop:
  assumes d: "distinct (map fst (columns df))"
    and mono: "\<forall>p q. 0 \<le> p \<and> p \<le> q \<and> q \<le> 1 \<longrightarrow> fge (ppf (Fin q)) (ppf (Fin p))"
    and a: "0 \<le> a1" "a1 \<le> a2" "a2 \<le> 1"
    and idx: "\<forall>i \<in> set idx. i < n_strategies df"
    and run: "for_loop (loop_body ppf df r null (Fin a1)) idx acc = Inr res1"
  shows "\<exists>res2. for_loop (loop_body ppf df r null (Fin a2)) idx acc = Inr res2
               \<and> prefix (accepted res1) (accepted res2)"
  using idx run
proof (induction idx arbitrary: acc)
  case Nil
  then show ?case by auto
next
  case (Cons i idx)
  then have i: "i < n_strategies df" by simp
  let ?m = "the (py_max (map snd (xi df r i)))"
  let ?next = "acc @ [strategies_list df r ! i]"
  note body = loop_body_cases [OF series_ok_distinct [OF d] i,
      where r = r and ppf = ppf and null = null and acc = acc]
  show ?case
  proof (cases "k_tilde df r null i = 0")
    case True
    with Cons.prems(2) body show ?thesis by auto
  next
    case k: False
    show ?thesis
    proof (cases "bonferroni_passes ppf df r null (Fin a1) i ?m")
      case True
      from bonferroni_mono [OF mono a k True]
      have p2: "bonferroni_passes ppf df r null (Fin a2) i ?m" .
      from Cons.prems(2) body [of "Fin a1"] k True
      have "for_loop (loop_body ppf df r null (Fin a1)) idx ?next = Inr res1" by simp
      from Cons.IH [OF _ this] Cons.prems(1) obtain res2 where
        "for_loop (loop_body ppf df r null (Fin a2)) idx ?next = Inr res2"
        "prefix (accepted res1) (accepted res2)" by auto
      with body [of "Fin a2"] k p2 show ?thesis by simp
    next
      case False
      with Cons.prems(2) body [of "Fin a1"] k have res1: "res1 = Returned acc" by simp
      show ?thesis
      proof (cases "bonferroni_passes ppf df r null (Fin a2) i ?m")
        case True
        from for_loop_no_raise [OF d, of idx ppf r null "Fin a2" ?next] Cons.prems(1)
        obtain res2 where
          "for_loop (loop_body ppf df r null (Fin a2)) idx ?next = Inr res2"
          "prefix ?next (accepted res2)" by auto
        with body [of "Fin a2"] k True res1 show ?thesis
          by (auto dest: append_prefixD)
      next
        case False
        with body [of "Fin a2"] k res1 show ?thesis by simp
      qed
    qed
  qed
qed

lemma ppf_coarse_mono:
  "\<forall>p q. 0 \<le> p \<and> p \<le> q \<and> q \<le> 1 \<longrightarrow> fge (ppf_coarse (Fin q)) (ppf_coarse (Fin p))"
  by (auto simp: ppf_coarse_def)

lemma sharpe_panel4b:
  "sharpe_ratios panel4b (Fin 0)
     = [(''C'', Fin (- 200)), (''A'', Fin 10), (''D'', Fin (- 300)), (''B'', Fin 1)]"
  by (simp add: sharpe_ratios_def mean_returns_def std_devs_def excess_returns_def df_sub_def
      df_mean_def df_std_def series_map2_def panel4b_def col_defs col_B1_def pd_mean_def
      pd_std_def notna_def of_count_def fsub_def sqrt_25)

lemma ranking_panel4b: "strategies_list panel4b (Fin 0) = [''A'', ''B'', ''C'', ''D'']"
  by (simp add: strategies_list_def sharpe_panel4b sort_values_desc_def)

lemma ranked_columns_panel4b:
  "map snd (loc (columns panel4b) [''A'', ''B'', ''C'', ''D'']) = [col_A, col_B1, col_C, col_D]"
  by (simp add: loc_def panel4b_def)

lemma cov_panel4b:
  "np_cov [col_A, col_B1, col_C, col_D] 5
     = [[Fin 25, Fin 0, Fin 0, Fin 0],
        [Fin 0, Fin 25, Fin 15, Fin (- 15)],
        [Fin 0, Fin 15, Fin 25, Fin 7],
        [Fin 0, Fin (- 15), Fin 7, Fin 25]]"
  by (simp add: np_cov_def np_mean_def dot_def of_count_def fsub_def col_defs col_B1_def)

lemma corr_panel4b:
  "correlation_matrix panel4b (Fin 0)
     = [[Fin 1, Fin 0, Fin 0, Fin 0],
        [Fin 0, Fin 1, Fin (3/5), Fin (- 3/5)],
        [Fin 0, Fin (3/5), Fin 1, Fin (7/25)],
        [Fin 0, Fin (- 3/5), Fin (7/25), Fin 1]]"
proof -
  have "index_len panel4b = 5" by (simp add: panel4b_def)
  then show ?thesis
    by (simp add: correlation_matrix_def ranking_panel4b ranked_columns_panel4b
        np_corrcoef_def cov_panel4b upt_4 sqrt_25)
qed

lemma subset_sharpe_panel4b:
  "subset_sharpe_ratios panel4b (Fin 0) 0
     = [(''A'', Fin 10), (''B'', Fin 1), (''C'', Fin (- 200)), (''D'', Fin (- 300))]"
  "subset_sharpe_ratios panel4b (Fin 0) (Suc 0)
     = [(''B'', Fin 1), (''C'', Fin (- 200)), (''D'', Fin (- 300))]"
  by (simp_all add: subset_sharpe_ratios_def subset_strategies_list_def ranking_panel4b
      sharpe_panel4b loc_def)

lemma rho_panel4b: "rho panel4b (Fin 0) 0 = Fin 0" "rho panel4b (Fin 0) (Suc 0) = Fin 0"
  by (simp_all add: rho_def corr_panel4b np_mean_def of_count_def)

lemma c_panel4b: "c panel4b (Fin 0) 0 = Fin 1" "c panel4b (Fin 0) (Suc 0) = Fin 1"
  by (simp_all add: c_def rho_panel4b subset_n_strategies_def subset_strategies_list_def
      ranking_panel4b of_count_def fsub_def)

lemma xi_panel4b:
  "xi panel4b (Fin 0) 0
     = [(''A'', Fin 10), (''B'', Fin 1), (''C'', Fin (- 200)), (''D'', Fin (- 300))]"
  "xi panel4b (Fin 0) (Suc 0) = [(''B'', Fin 1), (''C'', Fin (- 200)), (''D'', Fin (- 300))]"
  by (simp_all add: xi_def term1_def term2_def zeta_ones_like_def zeta_bar_def
      subset_sharpe_panel4b rho_panel4b c_panel4b subset_strategies_list_def ranking_panel4b
      series_map2_def series_scale_def pd_mean_def notna_def of_count_def fsub_def)

lemma panel4b_facts:
  "distinct (map fst (columns panel4b))" "n_strategies panel4b = 4" "n_periods panel4b = 5"
  by (simp_all add: panel4b_def n_strategies_def n_periods_def shape_def)

lemma k_tilde_panel4b:
  "k_tilde panel4b (Fin 0) (Fin 0) 0 = 2" "k_tilde panel4b (Fin 0) (Fin 0) (Suc 0) = 1"
proof -
  have th: "initial_threshold panel4b (Fin 0) (Fin 0) i = Fin (- loglog 5)"
    if "c panel4b (Fin 0) i = Fin 1" for i
    using loglog_term [of 5] that
    by (simp add: initial_threshold_def panel4b_facts fsub_def)
  show "k_tilde panel4b (Fin 0) (Fin 0) 0 = 2"
    using loglog_bounds [of 5]
    by (simp add: k_tilde_def strategies_passed_list_def xi_panel4b th [OF c_panel4b(1)])
  show "k_tilde panel4b (Fin 0) (Fin 0) (Suc 0) = 1"
    using loglog_bounds [of 5]
    by (simp add: k_tilde_def strategies_passed_list_def xi_panel4b th [OF c_panel4b(2)])
qed

lemma loop_body_panel4b:
  "loop_body ppf_coarse panel4b (Fin 0) (Fin 0) (Fin (1 / 20)) 0 [] = Continue [''A'']"
  "loop_body ppf_coarse panel4b (Fin 0) (Fin 0) (Fin (1 / 20)) (Suc 0) [''A'']
     = Return [''A'']"
  "loop_body ppf_coarse panel4b (Fin 0) (Fin 0) (Fin (1 / 2)) 0 [] = Continue [''A'']"
  "loop_body ppf_coarse panel4b (Fin 0) (Fin 0) (Fin (1 / 2)) (Suc 0) [''A'']
     = Continue [''A'', ''B'']"
  by (subst loop_body_cases [OF series_ok_distinct [OF panel4b_facts(1)]],
      simp_all add: panel4b_facts k_tilde_panel4b bonferroni_passes_def xi_panel4b
        py_max_def c_panel4b ranking_panel4b of_count_def fsub_def ppf_coarse_def)+

section \<open>Properties of the specification\<close>

text \<open>
  C7. The list the call returns is a prefix of the descending-Sharpe ranking, in rank
  order; an iteration that accepts appends the strategy of its own rank to the list and
  changes nothing else, and an iteration that returns hands back the list unchanged.
\<close>

theorem result_prefix_of_ranking:
  assumes "superior_predictive_ability ppf df r null alpha = Inr (PyList l)"
  shows "prefix l (strategies_list df r)
    \<and> (\<forall>i acc acc'. loop_body ppf df r null alpha i acc = Continue acc'
          \<longrightarrow> acc' = acc @ [strategies_list df r ! i])
    \<and> (\<forall>i acc ret. loop_body ppf df r null alpha i acc = Return ret \<longrightarrow> ret = acc)"
proof -
  from assms have "run_loop ppf df r null alpha = Inr (Returned l)"
    by (auto simp: superior_predictive_ability_def split: sum.splits outcome.splits)
  from run_loop_take [OF this] have "prefix l (strategies_list df r)"
    by (auto simp: take_is_prefix)
  then show ?thesis
    using loop_body_Continue loop_body_Return by blast
qed

theorem result_prefix_of_ranking_witness:
  "superior_predictive_ability ppf_coarse panel4 (Fin 0) (Fin 0) (Fin (1 / 20))
     = Inr (PyList [''A''])
   \<and> prefix [''A''] (strategies_list panel4 (Fin 0))"
proof -
  have run: "superior_predictive_ability ppf_coarse panel4 (Fin 0) (Fin 0) (Fin (1 / 20))
     = Inr (PyList [''A''])"
    by (simp add: superior_predictive_ability_def run_loop_panel4)
  from result_prefix_of_ranking [OF run] run show ?thesis by simp
qed

text \<open>
  C10. A list that the call returns has at most \<open>N - 2\<close> entries, and the strategies
  at the last two ranks, \<open>N - 2\<close> and \<open>N - 1\<close>, are not in it.
\<close>

theorem result_length_bound:
  assumes "superior_predictive_ability ppf df r null alpha = Inr (PyList l)"
  shows "length l \<le> n_strategies df - 2
    \<and> strategies_list df r ! (n_strategies df - 2) \<notin> set l
    \<and> strategies_list df r ! (n_strategies df - 1) \<notin> set l"
proof -
  let ?rk = "strategies_list df r"
  from assms have run: "run_loop ppf df r null alpha = Inr (Returned l)"
    by (auto simp: superior_predictive_ability_def split: sum.splits outcome.splits)
  from run_loop_take [OF run] obtain k where k: "k < n_strategies df - 2" "l = take k ?rk"
    by auto
  have d: "distinct ?rk" by (rule Returned_distinct [OF run])
  have len: "length ?rk = n_strategies df" by (rule length_strategies_list)
  have notin: "?rk ! j \<notin> set l" if "k \<le> j" "j < n_strategies df" for j
  proof
    assume "?rk ! j \<in> set l"
    then obtain j' where "j' < k" "j' < length ?rk" "?rk ! j' = ?rk ! j"
      using k(2) by (auto simp: in_set_conv_nth)
    with d that len have "j' = j" by (simp add: nth_eq_iff_index_eq)
    with \<open>j' < k\<close> that show False by simp
  qed
  from k len have "length l \<le> n_strategies df - 2" by simp
  moreover have "?rk ! (n_strategies df - 2) \<notin> set l" using k by (intro notin) simp_all
  moreover have "?rk ! (n_strategies df - 1) \<notin> set l" using k by (intro notin) simp_all
  ultimately show ?thesis by simp
qed

theorem result_length_bound_witness:
  "superior_predictive_ability ppf_coarse panel4 (Fin 0) (Fin 0) (Fin (1 / 20))
     = Inr (PyList [''A''])
   \<and> length [''A''] \<le> n_strategies panel4 - 2
   \<and> ''C'' \<notin> set [''A''] \<and> ''D'' \<notin> set [''A'']
   \<and> strategies_list panel4 (Fin 0) ! (n_strategies panel4 - 2) = ''C''
   \<and> strategies_list panel4 (Fin 0) ! (n_strategies panel4 - 1) = ''D''"
proof -
  have run: "superior_predictive_ability ppf_coarse panel4 (Fin 0) (Fin 0) (Fin (1 / 20))
     = Inr (PyList [''A''])"
    by (simp add: superior_predictive_ability_def run_loop_panel4)
  from result_length_bound [OF run] run show ?thesis
    by (simp add: ranking_panel4 n_strategies_panel4)
qed

text \<open>
  C2. With exactly two strategies the loop runs no iteration. The claim expects the
  empty list; the call ends without a \<open>return\<close> and its value is \<open>None\<close>.
\<close>

theorem two_strategies_None:
  assumes "n_strategies df = 2"
  shows "run_loop ppf df r null alpha = Inr (Completed [])
    \<and> superior_predictive_ability ppf df r null alpha = Inr PyNone"
  using assms by (simp add: superior_predictive_ability_def run_loop_def)

theorem two_strategies_None_witness:
  "n_strategies panel2 = 2
   \<and> run_loop ppf_coarse panel2 (Fin 0) (Fin 0) (Fin (1 / 20)) = Inr (Completed [])
   \<and> superior_predictive_ability ppf_coarse panel2 (Fin 0) (Fin 0) (Fin (1 / 20)) = Inr PyNone"
proof -
  have n: "n_strategies panel2 = 2" by (simp add: n_strategies_def shape_def panel2_def)
  from two_strategies_None [OF n] n show ?thesis by simp
qed




text \<open>
  C6. When an iteration finds \<open>k_tilde = 0\<close>, the body returns the list accepted so
  far, whatever indices remain in the range: the call ends there with that list as its
  value, not with an error.
\<close>

theorem k_tilde_zero_stops:
  assumes "distinct (map fst (columns df))" and "i < n_strategies df - 2"
    and "k_tilde df r null i = 0"
  shows "loop_body ppf df r null alpha i acc = Return acc
    \<and> (\<forall>rest. for_loop (loop_body ppf df r null alpha) (i # rest) acc = Inr (Returned acc))
    \<and> (for_loop (loop_body ppf df r null alpha) [0..<i] [] = Inr (Completed acc)
         \<longrightarrow> superior_predictive_ability ppf df r null alpha = Inr (PyList acc))"
proof -
  from assms(2) have i: "i < n_strategies df" by simp
  from loop_body_cases [OF series_ok_distinct [OF assms(1)] i] assms(3)
  have body: "loop_body ppf df r null alpha i acc = Return acc" by simp
  then have loop: "for_loop (loop_body ppf df r null alpha) (i # rest) acc = Inr (Returned acc)"
    for rest by simp
  have "superior_predictive_ability ppf df r null alpha = Inr (PyList acc)"
    if "for_loop (loop_body ppf df r null alpha) [0..<i] [] = Inr (Completed acc)"
    using run_loop_split [OF assms(2) that] loop
    by (simp add: superior_predictive_ability_def)
  with body loop show ?thesis by blast
qed

theorem k_tilde_zero_stops_witness:
  "distinct (map fst (columns panel4)) \<and> Suc 0 < n_strategies panel4 - 2
   \<and> k_tilde panel4 (Fin 0) (Fin 0) (Suc 0) = 0
   \<and> for_loop (loop_body ppf_coarse panel4 (Fin 0) (Fin 0) (Fin (1 / 20))) [0..<Suc 0] []
       = Inr (Completed [''A''])
   \<and> loop_body ppf_coarse panel4 (Fin 0) (Fin 0) (Fin (1 / 20)) (Suc 0) [''A''] = Return [''A'']
   \<and> superior_predictive_ability ppf_coarse panel4 (Fin 0) (Fin 0) (Fin (1 / 20))
       = Inr (PyList [''A''])"
proof -
  have i: "Suc 0 < n_strategies panel4 - 2" by (simp add: n_strategies_panel4)
  have pre: "for_loop (loop_body ppf_coarse panel4 (Fin 0) (Fin 0) (Fin (1 / 20))) [0..<Suc 0] []
       = Inr (Completed [''A''])"
    by (simp add: loop_body_panel4)
  from k_tilde_zero_stops [OF distinct_panel4 i k_tilde_panel4(2),
      of ppf_coarse "Fin (1 / 20)" "[''A'']"] pre i
  show ?thesis by (simp add: distinct_panel4 k_tilde_panel4)
qed

text \<open>
  C3. In an iteration with \<open>k_tilde > 0\<close>, \<open>max(xi)\<close> exists and the decision is the
  comparison \<open>max(xi) - c * null_sharpe >= ppf(1 - alpha / k_tilde)\<close>: when it
  holds, the first strategy of the current subset is appended and the loop goes on with
  the remaining indices; otherwise the call returns the list accepted so far, without
  the current candidate.
\<close>

theorem bonferroni_decision:
  assumes "distinct (map fst (columns df))" and "i < n_strategies df - 2"
    and "0 < k_tilde df r null i"
  shows "\<exists>max_xi first.
      py_max (map snd (xi df r i)) = Some max_xi
    \<and> subset_strategies_list df r i = first # drop (Suc i) (strategies_list df r)
    \<and> (let passes = fge (fsub max_xi (fmul (c df r i) null))
                         (ppf (fsub (Fin 1) (fdiv alpha (of_count (k_tilde df r null i)))))
       in loop_body ppf df r null alpha i acc
            = (if passes then Continue (acc @ [first]) else Return acc)
        \<and> (\<forall>rest. for_loop (loop_body ppf df r null alpha) (i # rest) acc
             = (if passes then for_loop (loop_body ppf df r null alpha) rest (acc @ [first])
                else Inr (Returned acc)))
        \<and> (\<not> passes \<and> for_loop (loop_body ppf df r null alpha) [0..<i] [] = Inr (Completed acc)
             \<longrightarrow> superior_predictive_ability ppf df r null alpha = Inr (PyList acc)))"
proof -
  from assms(2) have i: "i < n_strategies df" by simp
  from assms(3) have k: "k_tilde df r null i \<noteq> 0" by simp
  from xi_nonempty [OF k] obtain m where m: "py_max (map snd (xi df r i)) = Some m" by auto
  let ?first = "strategies_list df r ! i"
  let ?passes = "fge (fsub m (fmul (c df r i) null))
                     (ppf (fsub (Fin 1) (fdiv alpha (of_count (k_tilde df r null i)))))"
  from i have sub: "subset_strategies_list df r i = ?first # drop (Suc i) (strategies_list df r)"
    by (simp add: subset_strategies_list_def Cons_nth_drop_Suc length_strategies_list)
  from loop_body_cases [OF series_ok_distinct [OF assms(1)] i] k m
  have body: "loop_body ppf df r null alpha i acc
      = (if ?passes then Continue (acc @ [?first]) else Return acc)"
    by (simp add: bonferroni_passes_def)
  then have loop: "for_loop (loop_body ppf df r null alpha) (i # rest) acc
      = (if ?passes then for_loop (loop_body ppf df r null alpha) rest (acc @ [?first])
         else Inr (Returned acc))" for rest
    by simp
  have "superior_predictive_ability ppf df r null alpha = Inr (PyList acc)"
    if "\<not> ?passes" "for_loop (loop_body ppf df r null alpha) [0..<i] [] = Inr (Completed acc)"
    using run_loop_split [OF assms(2) that(2)] loop that(1)
    by (simp add: superior_predictive_ability_def)
  with m sub body loop show ?thesis unfolding Let_def by blast
qed

theorem bonferroni_decision_witness:
  "distinct (map fst (columns panel4)) \<and> 0 < n_strategies panel4 - 2
   \<and> 0 < k_tilde panel4 (Fin 0) (Fin 0) 0
   \<and> py_max (map snd (xi panel4 (Fin 0) 0)) = Some (Fin 10)
   \<and> subset_strategies_list panel4 (Fin 0) 0 = [''A'', ''B'', ''C'', ''D'']
   \<and> loop_body ppf_coarse panel4 (Fin 0) (Fin 0) (Fin (1 / 20)) 0 [] = Continue [''A'']
   \<and> loop_body ppf_coarse panel4 (Fin 0) (Fin 0) (Fin 2) 0 [] = Return []"
proof -
  have i: "0 < n_strategies panel4 - 2" by (simp add: n_strategies_panel4)
  have k: "0 < k_tilde panel4 (Fin 0) (Fin 0) 0" by (simp add: k_tilde_panel4)
  from bonferroni_decision [OF distinct_panel4 i k, of ppf_coarse "Fin (1 / 20)" "[]"]
    bonferroni_decision [OF distinct_panel4 i k, of ppf_coarse "Fin 2" "[]"] i k
  show ?thesis
    by (simp add: distinct_panel4 xi_panel4_0 py_max_def subset_strategies_list_def
        ranking_panel4 c_panel4 k_tilde_panel4 of_count_def fsub_def ppf_coarse_def)
qed

text \<open>
  C1. The claim expects the accumulated list in every terminating case, also when the
  loop has run all its \<open>N - 2\<close> iterations and each has accepted its candidate. In
  that case the loop ends with the list \<open>take (N - 2) strategies_list\<close>, but no
  \<open>return\<close> follows the loop and the value of the call is \<open>None\<close>. The witness is
  a valid panel of three strategies over five periods whose top strategy is accepted.
\<close>

theorem all_accepted_returns_None:
  assumes "\<forall>i < n_strategies df - 2.
      \<exists>acc'. loop_body ppf df r null alpha i (take i (strategies_list df r)) = Continue acc'"
  shows "run_loop ppf df r null alpha
           = Inr (Completed (take (n_strategies df - 2) (strategies_list df r)))
    \<and> superior_predictive_ability ppf df r null alpha = Inr PyNone"
proof -
  have "for_loop (loop_body ppf df r null alpha) [0..<n_strategies df - 2]
          (take 0 (strategies_list df r))
        = Inr (Completed (take (n_strategies df - 2) (strategies_list df r)))"
    using assms by (intro for_loop_all_accept) auto
  then show ?thesis by (simp add: run_loop_def superior_predictive_ability_def)
qed

theorem all_accepted_returns_None_witness:
  "loop_body ppf_coarse panel3 (Fin 0) (Fin 0) (Fin (1 / 20)) 0 [] = Continue [''A'']
   \<and> run_loop ppf_coarse panel3 (Fin 0) (Fin 0) (Fin (1 / 20)) = Inr (Completed [''A''])
   \<and> superior_predictive_ability ppf_coarse panel3 (Fin 0) (Fin 0) (Fin (1 / 20)) = Inr PyNone"
proof -
  have "\<forall>i < n_strategies panel3 - 2. \<exists>acc'.
      loop_body ppf_coarse panel3 (Fin 0) (Fin 0) (Fin (1 / 20)) i
        (take i (strategies_list panel3 (Fin 0))) = Continue acc'"
    by (simp add: panel3_facts loop_body_panel3)
  from all_accepted_returns_None [OF this] show ?thesis
    by (simp add: panel3_facts ranking_panel3 loop_body_panel3)
qed

text \<open>
  C4. In every iteration \<open>i\<close> of the loop, for a panel with unique column names whose
  subset has no undefined Sharpe ratio, the Series \<open>xi\<close> holds for each strategy of the
  subset the value \<open>c * zeta_bar + (1 / sqrt (1 - rho_bar)) * (Sharpe - zeta_bar)\<close> of
  the specification, with \<open>c = 1 / sqrt (1 + (m - 1) * rho_bar)\<close>, \<open>m = N - i\<close>, and
  \<open>rho_bar\<close> the mean of row \<open>i\<close>, columns \<open>i + 1\<close> to \<open>N - 1\<close>, of the one
  correlation matrix of the raw returns in ranked order; that matrix does not depend
  on \<open>i\<close>.
\<close>

theorem adjusted_statistic_formula:
  assumes "distinct (map fst (columns df))" and "i < n_strategies df - 2"
    and "\<forall>name \<in> set (drop i (strategies_list df r)). sharpe_of df r name \<noteq> NaN"
  shows "xi df r i = map (\<lambda>name. (name, adjusted_statistic_spec df r i name))
                         (drop i (strategies_list df r))
    \<and> c df r i = c_spec df r i
    \<and> zeta_bar df r i = zeta_bar_spec df r i
    \<and> rho df r i = rho_bar_spec df r i
    \<and> correlation_matrix df r = correlation_spec df r"
proof -
  from assms(2) have i: "i < n_strategies df" by simp
  note rho = rho_spec [OF assms(1) i, of r]
  note ss = subset_sharpe_spec [OF assms(1), of r i]
  have "NaN \<notin> set (map (sharpe_of df r) (drop i (strategies_list df r)))"
    using assms(3) by auto
  then have zeta: "zeta_bar df r i = zeta_bar_spec df r i"
    by (simp add: zeta_bar_def zeta_bar_spec_def ss comp_def pd_mean_def np_mean_def notna_id)
  have cc: "c df r i = c_spec df r i"
    by (simp add: c_def c_spec_def rho subset_n_strategies_def subset_strategies_list_def
        length_strategies_list of_count_def fsub_def)
  have "xi df r i = map (\<lambda>name. (name, adjusted_statistic_spec df r i name))
                         (drop i (strategies_list df r))"
    by (simp add: xi_def term1_def term2_def zeta_ones_like_def ss rho zeta cc
        subset_strategies_list_def series_map2_def series_scale_def
        adjusted_statistic_spec_def zip_map_map zip_same_conv_map comp_def)
  with cc zeta rho correlation_matrix_spec [OF assms(1)] show ?thesis by simp
qed

theorem adjusted_statistic_formula_witness:
  "distinct (map fst (columns panel4)) \<and> Suc 0 < n_strategies panel4 - 2
   \<and> drop (Suc 0) (strategies_list panel4 (Fin 0)) = [''B'', ''C'', ''D'']
   \<and> map (sharpe_of panel4 (Fin 0)) [''B'', ''C'', ''D'']
       = [Fin (- 100), Fin (- 200), Fin (- 300)]
   \<and> map (adjusted_statistic_spec panel4 (Fin 0) (Suc 0)) [''B'', ''C'', ''D'']
       = [Fin (- 100), Fin (- 200), Fin (- 300)]
   \<and> rho_bar_spec panel4 (Fin 0) (Suc 0) = Fin 0 \<and> c_spec panel4 (Fin 0) (Suc 0) = Fin 1"
proof -
  have i: "Suc 0 < n_strategies panel4 - 2" by (simp add: n_strategies_panel4)
  have ok: "\<forall>name \<in> set (drop (Suc 0) (strategies_list panel4 (Fin 0))).
              sharpe_of panel4 (Fin 0) name \<noteq> NaN"
    by (simp add: ranking_panel4 sharpe_of_def sharpe_panel4)
  from adjusted_statistic_formula [OF distinct_panel4 i ok] i
  show ?thesis
    by (simp add: distinct_panel4 xi_panel4_1 ranking_panel4 rho_panel4 c_panel4
        sharpe_of_def sharpe_panel4)
qed

text \<open>
  C5. With at least three periods and a finite \<open>c\<close>, the threshold of an iteration is
  the real number \<open>c * null_sharpe - sqrt (2 * ln (ln T) / T)\<close>; the strategies that
  pass are the entries of \<open>xi\<close> whose value is greater than the threshold, in the order
  of \<open>xi\<close>, and \<open>k_tilde\<close> is their number.
\<close>

theorem threshold_and_passed_set:
  assumes "3 \<le> n_periods df" and "c df r i = Fin cv"
  shows "initial_threshold df r (Fin nv) i
           = Fin (cv * nv - sqrt (2 * ln (ln (real (n_periods df))) / real (n_periods df)))
    \<and> strategies_passed_list df r (Fin nv) i
           = map fst (filter (\<lambda>(name, x). fgt x (initial_threshold df r (Fin nv) i)) (xi df r i))
    \<and> k_tilde df r (Fin nv) i
           = length (filter (\<lambda>(name, x). fgt x (initial_threshold df r (Fin nv) i)) (xi df r i))
    \<and> (\<forall>name x. (name, Fin x) \<in> set (xi df r i) \<longrightarrow>
          cv * nv - sqrt (2 * ln (ln (real (n_periods df))) / real (n_periods df)) < x \<longrightarrow>
          name \<in> set (strategies_passed_list df r (Fin nv) i))"
proof -
  let ?th = "cv * nv - sqrt (2 * ln (ln (real (n_periods df))) / real (n_periods df))"
  have th: "initial_threshold df r (Fin nv) i = Fin ?th"
    using loglog_term [OF assms(1)]
    by (simp add: initial_threshold_def assms(2) fsub_def loglog_def)
  have passed: "strategies_passed_list df r (Fin nv) i
      = map fst (filter (\<lambda>(name, x). fgt x (initial_threshold df r (Fin nv) i)) (xi df r i))"
    by (simp add: strategies_passed_list_def case_prod_unfold)
  then have k: "k_tilde df r (Fin nv) i
      = length (filter (\<lambda>(name, x). fgt x (initial_threshold df r (Fin nv) i)) (xi df r i))"
    by (simp add: k_tilde_def)
  have "name \<in> set (strategies_passed_list df r (Fin nv) i)"
    if "(name, Fin x) \<in> set (xi df r i)" "?th < x" for name x
  proof -
    from that have "(name, Fin x) \<in> set (filter (\<lambda>(name, x).
        fgt x (initial_threshold df r (Fin nv) i)) (xi df r i))"
      by (simp add: th)
    then show ?thesis unfolding passed by (metis fst_conv image_eqI set_map)
  qed
  with th passed k show ?thesis by blast
qed

theorem threshold_and_passed_set_witness:
  "3 \<le> n_periods panel4 \<and> c panel4 (Fin 0) 0 = Fin 1
   \<and> initial_threshold panel4 (Fin 0) (Fin 0) 0
       = Fin (1 * 0 - sqrt (2 * ln (ln (real (n_periods panel4))) / real (n_periods panel4)))
   \<and> strategies_passed_list panel4 (Fin 0) (Fin 0) 0 = [''A'']
   \<and> k_tilde panel4 (Fin 0) (Fin 0) 0 = 1"
proof -
  have t: "3 \<le> n_periods panel4" by (simp add: n_periods_def shape_def panel4_def)
  from threshold_and_passed_set [OF t c_panel4(1), of 0] t
  show ?thesis by (simp add: c_panel4 passed_panel4 k_tilde_panel4)
qed

text \<open>
  For \<open>0 \<le> alpha1 \<le> alpha2 \<le> 1\<close> and a quantile function that is defined and
  non-decreasing on \<open>[0, 1]\<close>, the list accepted when the loop ends at \<open>alpha1\<close> is
  a prefix of the list accepted at \<open>alpha2\<close>; when both calls return a list, the first
  list is a prefix of the second. The loop itself is monotone in \<open>alpha\<close>.
\<close>

lemma alpha_monotone:
  assumes mono: "\<forall>p q. 0 \<le> p \<and> p \<le> q \<and> q \<le> 1 \<longrightarrow> fge (ppf (Fin q)) (ppf (Fin p))"
    and a: "0 \<le> a1" "a1 \<le> a2" "a2 \<le> 1"
    and run: "run_loop ppf df r null (Fin a1) = Inr res1"
  shows "\<exists>res2. run_loop ppf df r null (Fin a2) = Inr res2
      \<and> prefix (accepted res1) (accepted res2)
      \<and> (\<forall>l1 l2. superior_predictive_ability ppf df r null (Fin a1) = Inr (PyList l1)
              \<and> superior_predictive_ability ppf df r null (Fin a2) = Inr (PyList l2)
            \<longrightarrow> prefix l1 l2)"
proof -
  have main: "\<exists>res2. run_loop ppf df r null (Fin a2) = Inr res2
      \<and> prefix (accepted res1) (accepted res2)"
  proof (cases "n_strategies df - 2")
    case 0
    with run show ?thesis by (auto simp: run_loop_def)
  next
    case (Suc m)
    then have range: "[0..<n_strategies df - 2] = 0 # [Suc 0..<n_strategies df - 2]"
      by (simp add: upt_conv_Cons)
    from run have "loop_body ppf df r null (Fin a1) 0 [] \<noteq> Raise ValueError"
      by (auto simp: run_loop_def range)
    moreover from Suc have "0 < n_strategies df" by simp
    ultimately have d: "distinct (map fst (columns df))"
      by (rule loop_body_no_raise_distinct)
    have "\<forall>i \<in> set [0..<n_strategies df - 2]. i < n_strategies df" by auto
    from alpha_mono_loop [OF d mono a this] run show ?thesis
      by (simp add: run_loop_def)
  qed
  then obtain res2 where res2: "run_loop ppf df r null (Fin a2) = Inr res2"
    "prefix (accepted res1) (accepted res2)" by blast
  have "prefix l1 l2"
    if "superior_predictive_ability ppf df r null (Fin a1) = Inr (PyList l1)"
       "superior_predictive_ability ppf df r null (Fin a2) = Inr (PyList l2)" for l1 l2
  proof -
    from that(1) run have "res1 = Returned l1"
      by (cases res1) (simp_all add: superior_predictive_ability_def)
    moreover from that(2) res2(1) have "res2 = Returned l2"
      by (cases res2) (simp_all add: superior_predictive_ability_def)
    ultimately show ?thesis using res2(2) by simp
  qed
  with res2 show ?thesis by blast
qed

lemma alpha_monotone_example:
  "(0::real) \<le> 1 / 20 \<and> (1 / 20 :: real) \<le> 1 / 5 \<and> (1 / 5 :: real) \<le> 1
   \<and> run_loop ppf_coarse panel4 (Fin 0) (Fin 0) (Fin (1 / 20)) = Inr (Returned [''A''])
   \<and> (\<exists>res2. run_loop ppf_coarse panel4 (Fin 0) (Fin 0) (Fin (1 / 5)) = Inr res2
         \<and> prefix [''A''] (accepted res2))"
proof -
  have a: "(0::real) \<le> 1 / 20" "(1 / 20 :: real) \<le> 1 / 5" "(1 / 5 :: real) \<le> 1" by simp_all
  from alpha_monotone [OF ppf_coarse_mono a run_loop_panel4] run_loop_panel4
  show ?thesis by auto
qed

text \<open>
  C8. A larger \<open>alpha\<close> is expected never to remove a strategy from the result. The
  accepted list grows with \<open>alpha\<close>, as shown above, but the value of the call does
  not follow it: on the panel below \<open>alpha = 0.05\<close> accepts \<open>A\<close>, rejects \<open>B\<close>
  and returns the list with \<open>A\<close>, while \<open>alpha = 0.5\<close> accepts \<open>A\<close> and \<open>B\<close>,
  uses up the range, and the call ends without a \<open>return\<close>: its value is \<open>None\<close>
  and \<open>A\<close> is no longer in the result.
\<close>

theorem larger_alpha_loses_result:
  "(0::real) \<le> 1 / 20 \<and> (1 / 20 :: real) < 1 / 2 \<and> (1 / 2 :: real) \<le> 1
   \<and> run_loop ppf_coarse panel4b (Fin 0) (Fin 0) (Fin (1 / 20)) = Inr (Returned [''A''])
   \<and> run_loop ppf_coarse panel4b (Fin 0) (Fin 0) (Fin (1 / 2))
       = Inr (Completed [''A'', ''B''])
   \<and> superior_predictive_ability ppf_coarse panel4b (Fin 0) (Fin 0) (Fin (1 / 20))
       = Inr (PyList [''A''])
   \<and> superior_predictive_ability ppf_coarse panel4b (Fin 0) (Fin 0) (Fin (1 / 2)) = Inr PyNone"
proof -
  have "[0..<n_strategies panel4b - 2] = [0, Suc 0]"
    by (simp add: panel4b_facts upt_rec)
  then show ?thesis
    by (simp add: superior_predictive_ability_def run_loop_def loop_body_panel4b)
qed

end
